theory Spec2Isabelle
  imports Complex_Main "HOL-Library.Word" "HOL-Library.Signed_Division" "HOL-Library.Log_Nat"
begin

chapter \<open>native\_nvcp\_toggle: gamma ramp, default detection, vibrance units\<close>

text \<open>
  A shallow embedding of \<^verbatim>\<open>src/native_nvcp_toggle.c\<close>. C \<^verbatim>\<open>int\<close> is a 32-bit word read
  with \<open>sint\<close>, \<^verbatim>\<open>WORD\<close> a 16-bit word, \<^verbatim>\<open>double\<close> an IEEE-754 binary64 value whose
  operations round to nearest, ties to even. What the operating system, the driver and
  the C library do (\<^verbatim>\<open>fopen\<close>, \<^verbatim>\<open>GetDeviceGammaRamp\<close>, the driver entry points,
  \<^verbatim>\<open>pow\<close>, \<^verbatim>\<open>atoi\<close>, \<^verbatim>\<open>atof\<close>) is a parameter of the function that calls it.
\<close>

section \<open>C integers\<close>

text \<open>
  \<^verbatim>\<open>a / b\<close> on \<^verbatim>\<open>int\<close> truncates towards zero. Arithmetic on words wraps around; ISO C
  leaves signed overflow undefined, and the wrap-around is what the two's complement
  targets of this Windows program compute.
\<close>

definition c_div :: "32 word \<Rightarrow> 32 word \<Rightarrow> 32 word" where
  "c_div a b = word_of_int (sint a sdiv sint b)"

definition c_abs :: "32 word \<Rightarrow> 32 word" where
  "c_abs a = (if sint a < 0 then - a else a)"

section \<open>Vibrance unit conversion\<close>

text \<open>
  \<^verbatim>\<open>static int PercentToDVC(int percent, int dvcMax) {
    if (percent <= 50) return 0;
    if (percent >= 100) return dvcMax;
    return ((percent - 50) * dvcMax) / 50; }\<close>
\<close>

definition PercentToDVC :: "32 word \<Rightarrow> 32 word \<Rightarrow> 32 word" where
  "PercentToDVC percent dvcMax =
     (if sint percent \<le> 50 then 0
      else if 100 \<le> sint percent then dvcMax
      else c_div ((percent - 50) * dvcMax) 50)"

text \<open>
  \<^verbatim>\<open>static int DVCToPercent(int dvcValue, int dvcMax) {
    if (dvcMax == 0) return 50;
    return 50 + (dvcValue * 50) / dvcMax; }\<close>
\<close>

definition DVCToPercent :: "32 word \<Rightarrow> 32 word \<Rightarrow> 32 word" where
  "DVCToPercent dvcValue dvcMax =
     (if dvcMax = 0 then 50 else 50 + c_div (dvcValue * 50) dvcMax)"

section \<open>IEEE-754 binary64\<close>

text \<open>
  A \<^verbatim>\<open>double\<close> is a finite value, one of the two infinities, or a NaN. \<open>Fin r\<close> carries
  the real number the bit pattern stands for (\<open>Fin 0\<close> is \<open>+0\<close>), \<open>NegZero\<close> is \<open>-0\<close>.
  Every operation computes the exact real result and rounds it to the nearest
  representable value, ties to even (53 significant bits, exponents of the unit in the
  last place from \<open>-1074\<close> to \<open>971\<close>); a rounded magnitude of \<open>2^1024\<close> or more overflows
  to an infinity. Each C operation is rounded on its own: no extended precision and no
  fused multiply-add.
\<close>

datatype double = Fin real | NegZero | PInf | NInf | NaN

text \<open>Round to the nearest integer, a tie to the even neighbour.\<close>

definition rne :: "real \<Rightarrow> int" where
  "rne y = (let f = \<lfloor>y\<rfloor>; d = y - of_int f
            in if d < 1/2 then f else if 1/2 < d then f + 1
               else if even f then f else f + 1)"

text \<open>\<open>ilog2 x\<close> is the integer \<open>k\<close> with \<open>2^k \<le> x < 2^(k+1)\<close>, for \<open>x > 0\<close>.\<close>

definition ilog2 :: "real \<Rightarrow> int" where
  "ilog2 x = (if 1 \<le> x then bitlen \<lfloor>x\<rfloor> - 1 else - bitlen (\<lceil>1 / x\<rceil> - 1))"

text \<open>The exponent of the unit in the last place of the binary64 values around \<open>x\<close>.\<close>

definition dexp :: "real \<Rightarrow> int" where
  "dexp x = max (ilog2 \<bar>x\<bar> - 52) (- 1074)"

definition rd :: "real \<Rightarrow> real" where
  "rd x = (if x = 0 then 0 else of_int (rne (x / 2 powi dexp x)) * 2 powi dexp x)"

text \<open>
  The rounded result as a \<^verbatim>\<open>double\<close>; \<open>neg\<close> is the sign the result takes when it is a
  zero.
\<close>

definition round_d :: "bool \<Rightarrow> real \<Rightarrow> double" where
  "round_d neg x =
     (let r = rd x
      in if 2 ^ 1024 \<le> \<bar>r\<bar> then (if r < 0 then NInf else PInf)
         else if r = 0 then (if neg then NegZero else Fin 0)
         else Fin r)"

fun is_fin :: "double \<Rightarrow> bool" where
  "is_fin (Fin r) = True"
| "is_fin NegZero = True"
| "is_fin _ = False"

fun is_inf :: "double \<Rightarrow> bool" where
  "is_inf PInf = True"
| "is_inf NInf = True"
| "is_inf _ = False"

fun dval :: "double \<Rightarrow> real" where
  "dval (Fin r) = r"
| "dval _ = 0"

definition is_zero :: "double \<Rightarrow> bool" where
  "is_zero a = (is_fin a \<and> dval a = 0)"

fun sign_bit :: "double \<Rightarrow> bool" where
  "sign_bit (Fin r) = (r < 0)"
| "sign_bit NegZero = True"
| "sign_bit NInf = True"
| "sign_bit _ = False"

definition signed_inf :: "bool \<Rightarrow> double" where
  "signed_inf neg = (if neg then NInf else PInf)"

definition signed_zero :: "bool \<Rightarrow> double" where
  "signed_zero neg = (if neg then NegZero else Fin 0)"

fun dneg :: "double \<Rightarrow> double" where
  "dneg (Fin r) = (if r = 0 then NegZero else Fin (- r))"
| "dneg NegZero = Fin 0"
| "dneg PInf = NInf"
| "dneg NInf = PInf"
| "dneg NaN = NaN"

definition dadd :: "double \<Rightarrow> double \<Rightarrow> double" where
  "dadd a b =
     (if a = NaN \<or> b = NaN then NaN
      else if is_inf a \<and> is_inf b then (if a = b then a else NaN)
      else if is_inf a then a
      else if is_inf b then b
      else let s = dval a + dval b
           in round_d (if s = 0 then sign_bit a \<and> sign_bit b else s < 0) s)"

definition dsub :: "double \<Rightarrow> double \<Rightarrow> double" where
  "dsub a b = dadd a (dneg b)"

definition dmul :: "double \<Rightarrow> double \<Rightarrow> double" where
  "dmul a b =
     (if a = NaN \<or> b = NaN then NaN
      else if (is_inf a \<and> is_zero b) \<or> (is_zero a \<and> is_inf b) then NaN
      else if is_inf a \<or> is_inf b then signed_inf (sign_bit a \<noteq> sign_bit b)
      else round_d (sign_bit a \<noteq> sign_bit b) (dval a * dval b))"

definition ddiv :: "double \<Rightarrow> double \<Rightarrow> double" where
  "ddiv a b =
     (if a = NaN \<or> b = NaN then NaN
      else if (is_inf a \<and> is_inf b) \<or> (is_zero a \<and> is_zero b) then NaN
      else if is_inf a \<or> is_zero b then signed_inf (sign_bit a \<noteq> sign_bit b)
      else if is_inf b then signed_zero (sign_bit a \<noteq> sign_bit b)
      else round_d (sign_bit a \<noteq> sign_bit b) (dval a / dval b))"

text \<open>Comparisons: a NaN compares unequal to everything, \<open>-0\<close> equals \<open>+0\<close>.\<close>

definition dlt :: "double \<Rightarrow> double \<Rightarrow> bool" where
  "dlt a b =
     (if a = NaN \<or> b = NaN then False
      else if a = PInf \<or> b = NInf then False
      else if a = NInf \<or> b = PInf then True
      else dval a < dval b)"

definition dgt :: "double \<Rightarrow> double \<Rightarrow> bool" where
  "dgt a b = dlt b a"

definition dne :: "double \<Rightarrow> double \<Rightarrow> bool" where
  "dne a b =
     (if a = NaN \<or> b = NaN then True
      else if is_fin a \<and> is_fin b then dval a \<noteq> dval b
      else a \<noteq> b)"

text \<open>A decimal literal of the source is the double nearest to it.\<close>

definition lit :: "real \<Rightarrow> double" where
  "lit q = round_d False q"

text \<open>\<^verbatim>\<open>(double)i\<close> for an \<^verbatim>\<open>int\<close>: every 32-bit integer is a double, the conversion is exact.\<close>

definition d_of_int :: "int \<Rightarrow> double" where
  "d_of_int k = Fin (of_int k)"

text \<open>
  \<^verbatim>\<open>(WORD)x\<close>: the fraction is dropped. ISO C defines the conversion only when the
  integral part fits the target type; outside it the model follows the x86 conversion
  instruction the cast compiles to (the low 16 bits of the 32-bit result, which is
  \<open>0x80000000\<close> for a NaN or a value that does not fit 32 bits).
\<close>

definition trunc0 :: "real \<Rightarrow> int" where
  "trunc0 r = (if 0 \<le> r then \<lfloor>r\<rfloor> else \<lceil>r\<rceil>)"

definition to_WORD :: "double \<Rightarrow> 16 word" where
  "to_WORD x =
     (if is_fin x \<and> - (2 ^ 31) \<le> trunc0 (dval x) \<and> trunc0 (dval x) < 2 ^ 31
      then word_of_int (trunc0 (dval x)) else 0)"

section \<open>The gamma ramp\<close>

text \<open>
  \<^verbatim>\<open>WORD ramp[3][256]\<close> is a list of three lists of 256 words. The array is written in
  place: the model takes its content at entry (indeterminate for the callers' local
  arrays) and returns it updated.
\<close>

type_synonym ramp = "16 word list list"

definition wf_ramp :: "ramp \<Rightarrow> bool" where
  "wf_ramp ramp = (length ramp = 3 \<and> (\<forall>c < 3. length (ramp ! c) = 256))"

definition ramp_set :: "ramp \<Rightarrow> nat \<Rightarrow> nat \<Rightarrow> 16 word \<Rightarrow> ramp" where
  "ramp_set ramp c i v = ramp[c := (ramp ! c)[i := v]]"

text \<open>
  The loop body up to the clamp of the base value (lines 123 to 136). \<open>pow\<close> is the
  C library's function.
\<close>

definition base_value ::
  "(double \<Rightarrow> double \<Rightarrow> double) \<Rightarrow> double \<Rightarrow> double \<Rightarrow> double \<Rightarrow> nat \<Rightarrow> double" where
  "base_value pow brightness contrast gamma i =
     (let value = ddiv (d_of_int (int i)) (Fin 255);
          value = (if dne gamma (Fin 1) then pow value (ddiv (Fin 1) gamma) else value);
          value = dadd (dadd (dmul (dsub value (Fin (1/2))) (dmul contrast (Fin 2))) (Fin (1/2)))
                       (dsub brightness (Fin (1/2)));
          value = (if dlt value (Fin 0) then Fin 0 else value);
          value = (if dgt value (Fin 1) then Fin 1 else value)
      in value)"

text \<open>
  One channel (lines 139 to 151): temperature factor, clamp, scaling to 16 bits.
  \<open>scaled\<close> is the double that the cast to \<^verbatim>\<open>WORD\<close> receives.
\<close>

definition scaled :: "double \<Rightarrow> double \<Rightarrow> double" where
  "scaled value adj =
     (let r = dmul value adj;
          r = (if dgt r (Fin 1) then Fin 1 else r)
      in dadd (dmul r (Fin 65535)) (Fin (1/2)))"

definition channel :: "double \<Rightarrow> double \<Rightarrow> 16 word" where
  "channel value adj = to_WORD (scaled value adj)"

function BuildGammaRamp_loop ::
  "(double \<Rightarrow> double \<Rightarrow> double) \<Rightarrow> double \<Rightarrow> double \<Rightarrow> double \<Rightarrow>
   double \<Rightarrow> double \<Rightarrow> double \<Rightarrow> nat \<Rightarrow> ramp \<Rightarrow> ramp" where
  "BuildGammaRamp_loop pow brightness contrast gamma redAdj greenAdj blueAdj i ramp =
     (if i < 256 then
        let value = base_value pow brightness contrast gamma i;
            ramp = ramp_set ramp 0 i (channel value redAdj);
            ramp = ramp_set ramp 1 i (channel value greenAdj);
            ramp = ramp_set ramp 2 i (channel value blueAdj)
        in BuildGammaRamp_loop pow brightness contrast gamma redAdj greenAdj blueAdj (i + 1) ramp
      else ramp)"
  by pat_completeness auto
termination
  by (relation "measure (\<lambda>(pow, brightness, contrast, gamma, redAdj, greenAdj, blueAdj, i, ramp). 256 - i)") auto

declare BuildGammaRamp_loop.simps [simp del]

definition BuildGammaRamp ::
  "(double \<Rightarrow> double \<Rightarrow> double) \<Rightarrow> ramp \<Rightarrow> double \<Rightarrow> double \<Rightarrow> double \<Rightarrow> 32 word \<Rightarrow> ramp" where
  "BuildGammaRamp pow ramp brightness contrast gamma temperature =
     (let tempFactor = ddiv (d_of_int (sint temperature)) (Fin 100);
          redAdj = dadd (Fin 1) (dmul tempFactor (lit (1/10)));
          blueAdj = dsub (Fin 1) (dmul tempFactor (lit (1/10)));
          greenAdj = dadd (Fin 1) (dmul tempFactor (lit (2/100)))
      in BuildGammaRamp_loop pow brightness contrast gamma redAdj greenAdj blueAdj 0 ramp)"

text \<open>
  The temperature factors of lines 116 to 119 on their own, by channel index
  (0 red, 1 green, 2 blue), and the double converted into \<^verbatim>\<open>ramp[ch][i]\<close>.
\<close>

definition temperature_adj :: "32 word \<Rightarrow> nat \<Rightarrow> double" where
  "temperature_adj temperature ch =
     (let tempFactor = ddiv (d_of_int (sint temperature)) (Fin 100);
          redAdj = dadd (Fin 1) (dmul tempFactor (lit (1/10)));
          blueAdj = dsub (Fin 1) (dmul tempFactor (lit (1/10)));
          greenAdj = dadd (Fin 1) (dmul tempFactor (lit (2/100)))
      in if ch = 0 then redAdj else if ch = 1 then greenAdj else blueAdj)"

definition sample_double ::
  "(double \<Rightarrow> double \<Rightarrow> double) \<Rightarrow> double \<Rightarrow> double \<Rightarrow> double \<Rightarrow> 32 word \<Rightarrow>
   nat \<Rightarrow> nat \<Rightarrow> double" where
  "sample_double pow brightness contrast gamma temperature ch i =
     scaled (base_value pow brightness contrast gamma i) (temperature_adj temperature ch)"

definition DEFAULT_BRIGHTNESS :: double where "DEFAULT_BRIGHTNESS = Fin (1/2)"
definition DEFAULT_CONTRAST :: double where "DEFAULT_CONTRAST = Fin (1/2)"
definition DEFAULT_GAMMA :: double where "DEFAULT_GAMMA = Fin 1"

section \<open>A reference for the C library's pow\<close>

text \<open>
  \<^verbatim>\<open>pow\<close> belongs to the C library: \<open>BuildGammaRamp\<close> takes it as a parameter.
  \<open>pow_ref\<close> is the function of ISO C Annex F (the special values of F.10.4.4) that
  is correctly rounded everywhere else; it is the instance used where a concrete
  \<^verbatim>\<open>pow\<close> is needed. A library's \<^verbatim>\<open>pow\<close> may differ from it in the last place.
\<close>

definition odd_int :: "double \<Rightarrow> bool" where
  "odd_int y = (is_fin y \<and> of_int \<lfloor>dval y\<rfloor> = dval y \<and> odd \<lfloor>dval y\<rfloor>)"

definition pow_ref :: "double \<Rightarrow> double \<Rightarrow> double" where
  "pow_ref x y =
     (if is_zero y then Fin 1
      else if x = Fin 1 then Fin 1
      else if x = NaN \<or> y = NaN then NaN
      else if is_zero x then
        (if sign_bit y then signed_inf (sign_bit x \<and> odd_int y)
         else signed_zero (sign_bit x \<and> odd_int y))
      else if is_inf y then
        (if x = Fin (- 1) then Fin 1
         else if (is_fin x \<and> \<bar>dval x\<bar> < 1) = sign_bit y then PInf else Fin 0)
      else if x = PInf then (if sign_bit y then Fin 0 else PInf)
      else if x = NInf then
        (if sign_bit y then signed_zero (odd_int y) else signed_inf (odd_int y))
      else if dval x < 0 then
        (if of_int \<lfloor>dval y\<rfloor> = dval y
         then round_d (odd_int y) ((if odd_int y then - 1 else 1) * (\<bar>dval x\<bar> powr dval y))
         else NaN)
      else round_d False (dval x powr dval y))"

text \<open>
  What the theorems on the ramp ask of \<^verbatim>\<open>pow\<close>, for the exponent \<open>y\<close> of the call: on
  bases in \<open>[0, 1]\<close> its result is a finite value in \<open>[0, 1]\<close>, and it is monotone in
  the base.
\<close>

definition unit_d :: "double \<Rightarrow> bool" where
  "unit_d x = (is_fin x \<and> 0 \<le> dval x \<and> dval x \<le> 1)"

definition pow_unit :: "(double \<Rightarrow> double \<Rightarrow> double) \<Rightarrow> double \<Rightarrow> bool" where
  "pow_unit pow y = (\<forall>x. unit_d x \<longrightarrow> unit_d (pow x y))"

definition pow_mono :: "(double \<Rightarrow> double \<Rightarrow> double) \<Rightarrow> double \<Rightarrow> bool" where
  "pow_mono pow y =
     (\<forall>x x'. unit_d x \<and> unit_d x' \<and> dval x \<le> dval x' \<longrightarrow> dval (pow x y) \<le> dval (pow x' y))"

section \<open>Default-state detection\<close>

type_synonym HDC = nat

function HasDefaultGammaRamp_loop :: "ramp \<Rightarrow> ramp \<Rightarrow> nat \<Rightarrow> nat \<Rightarrow> bool" where
  "HasDefaultGammaRamp_loop currentRamp defaultRamp c i =
     (if c < 3 then
        (if i < 256 then
           (if \<bar>uint (currentRamp ! c ! i) - uint (defaultRamp ! c ! i)\<bar> > 256 then False
            else HasDefaultGammaRamp_loop currentRamp defaultRamp c (i + 1))
         else HasDefaultGammaRamp_loop currentRamp defaultRamp (c + 1) 0)
      else True)"
  by pat_completeness auto
termination
  by (relation "measure (\<lambda>(currentRamp, defaultRamp, c, i). (3 - c) * 257 + (256 - i))") auto

declare HasDefaultGammaRamp_loop.simps [simp del]

text \<open>
  \<open>GetDeviceGammaRamp hdc\<close> is the outcome of the Windows call: \<open>None\<close> when it returns
  \<^verbatim>\<open>FALSE\<close>, \<open>Some ramp\<close> when it fills the buffer. \<open>defaultRamp\<close> is the content of the
  local array at entry.
\<close>

definition HasDefaultGammaRamp ::
  "(double \<Rightarrow> double \<Rightarrow> double) \<Rightarrow> (HDC \<Rightarrow> ramp option) \<Rightarrow> ramp \<Rightarrow> HDC \<Rightarrow> bool" where
  "HasDefaultGammaRamp pow GetDeviceGammaRamp defaultRamp hdc =
     (case GetDeviceGammaRamp hdc of
        None \<Rightarrow> True
      | Some currentRamp \<Rightarrow>
          let defaultRamp = BuildGammaRamp pow defaultRamp
                              DEFAULT_BRIGHTNESS DEFAULT_CONTRAST DEFAULT_GAMMA 0
          in HasDefaultGammaRamp_loop currentRamp defaultRamp 0 0)"

section \<open>The driver\<close>

text \<open>
  \<^verbatim>\<open>nvapi.h\<close> is not among the sources. A status is an integer and \<^verbatim>\<open>NVAPI_OK\<close> is 0;
  \<^verbatim>\<open>MAKE_NVAPI_VERSION(type, 1)\<close> is \<^verbatim>\<open>sizeof(type) | (1 << 16)\<close>. No claim depends on
  these values. The four entry points are global function pointers, \<open>None\<close> while
  \<^verbatim>\<open>NULL\<close>; a query receives the structure the caller prepared and returns the
  status with the structure as the driver left it.
\<close>

type_synonym NvDisplayHandle = nat
type_synonym NvAPI_Status = int

definition NVAPI_OK :: NvAPI_Status where
  "NVAPI_OK = 0"

record NV_GPU_DVC_INFO_V1 =
  dvc_version :: "32 word"
  currentLevel :: "32 word"
  minLevel :: "32 word"
  maxLevel :: "32 word"

record NV_GPU_HUE_INFO_V1 =
  hue_version :: "32 word"
  currentAngle :: "32 word"
  defaultAngle :: "32 word"

definition NV_GPU_DVC_INFO_VER1 :: "32 word" where
  "NV_GPU_DVC_INFO_VER1 = 0x10010"

definition NV_GPU_HUE_INFO_VER1 :: "32 word" where
  "NV_GPU_HUE_INFO_VER1 = 0x1000C"

record driver =
  pfnNvAPI_GPU_GetDVCInfo ::
    "(NvDisplayHandle \<Rightarrow> 32 word \<Rightarrow> NV_GPU_DVC_INFO_V1 \<Rightarrow> NvAPI_Status \<times> NV_GPU_DVC_INFO_V1) option"
  pfnNvAPI_GPU_SetDVCLevel :: "(NvDisplayHandle \<Rightarrow> 32 word \<Rightarrow> 32 word \<Rightarrow> NvAPI_Status) option"
  pfnNvAPI_GPU_GetHUEInfo ::
    "(NvDisplayHandle \<Rightarrow> 32 word \<Rightarrow> NV_GPU_HUE_INFO_V1 \<Rightarrow> NvAPI_Status \<times> NV_GPU_HUE_INFO_V1) option"
  pfnNvAPI_GPU_SetHUEAngle :: "(NvDisplayHandle \<Rightarrow> 32 word \<Rightarrow> 32 word \<Rightarrow> NvAPI_Status) option"

definition DEFAULT_VIBRANCE_PCT :: "32 word" where "DEFAULT_VIBRANCE_PCT = 50"
definition DEFAULT_HUE :: "32 word" where "DEFAULT_HUE = 0"

text \<open>
  \<^verbatim>\<open>int GetVibrance(NvDisplayHandle hDisplay, int* outMin, int* outMax)\<close>.
  \<open>dvcInfo_init\<close> is the local \<^verbatim>\<open>dvcInfo = {0}\<close> with its version set. An
  \<^verbatim>\<open>int*\<close> argument is \<open>None\<close> for \<^verbatim>\<open>NULL\<close> and \<open>Some v\<close> for a pointer to a variable that
  holds \<open>v\<close>; the function returns its result and what the two variables hold afterwards.
\<close>

definition dvcInfo_init :: NV_GPU_DVC_INFO_V1 where
  "dvcInfo_init = \<lparr>dvc_version = NV_GPU_DVC_INFO_VER1, currentLevel = 0, minLevel = 0, maxLevel = 0\<rparr>"

definition GetVibrance ::
  "driver \<Rightarrow> NvDisplayHandle \<Rightarrow> 32 word option \<Rightarrow> 32 word option \<Rightarrow>
   32 word \<times> 32 word option \<times> 32 word option" where
  "GetVibrance drv hDisplay outMin outMax =
     (case pfnNvAPI_GPU_GetDVCInfo drv of
        None \<Rightarrow> (0, outMin, outMax)
      | Some f \<Rightarrow>
          let (status, dvcInfo) = f hDisplay 0 dvcInfo_init
          in if status \<noteq> NVAPI_OK then (0, outMin, outMax)
             else (currentLevel dvcInfo,
                   (case outMin of None \<Rightarrow> None | Some _ \<Rightarrow> Some (minLevel dvcInfo)),
                   (case outMax of None \<Rightarrow> None | Some _ \<Rightarrow> Some (maxLevel dvcInfo))))"

definition hueInfo_init :: NV_GPU_HUE_INFO_V1 where
  "hueInfo_init = \<lparr>hue_version = NV_GPU_HUE_INFO_VER1, currentAngle = 0, defaultAngle = 0\<rparr>"

definition GetHue :: "driver \<Rightarrow> NvDisplayHandle \<Rightarrow> 32 word" where
  "GetHue drv hDisplay =
     (case pfnNvAPI_GPU_GetHUEInfo drv of
        None \<Rightarrow> DEFAULT_HUE
      | Some f \<Rightarrow>
          let (status, hueInfo) = f hDisplay 0 hueInfo_init
          in if status \<noteq> NVAPI_OK then DEFAULT_HUE else currentAngle hueInfo)"

text \<open>
  What the program asks the driver and the operating system to change is returned as
  the list of calls made, in order. Console output is left out of \<open>ToggleDisplay\<close>.
\<close>

datatype call =
    Call_SetDVCLevel NvDisplayHandle "32 word"
  | Call_SetHUEAngle NvDisplayHandle "32 word"
  | Call_SetDeviceGammaRamp HDC ramp

definition SetVibrance :: "driver \<Rightarrow> NvDisplayHandle \<Rightarrow> 32 word \<Rightarrow> bool \<times> call list" where
  "SetVibrance drv hDisplay level =
     (case pfnNvAPI_GPU_SetDVCLevel drv of
        None \<Rightarrow> (False, [])
      | Some f \<Rightarrow> (f hDisplay 0 level = NVAPI_OK, [Call_SetDVCLevel hDisplay level]))"

definition SetHue :: "driver \<Rightarrow> NvDisplayHandle \<Rightarrow> 32 word \<Rightarrow> bool \<times> call list" where
  "SetHue drv hDisplay angle =
     (case pfnNvAPI_GPU_SetHUEAngle drv of
        None \<Rightarrow> (False, [])
      | Some f \<Rightarrow> (f hDisplay 0 angle = NVAPI_OK, [Call_SetHUEAngle hDisplay angle]))"

section \<open>Configuration\<close>

record Config =
  toggleAllDisplays :: bool
  keyPressToExit :: bool
  vibrance :: "32 word"
  hue :: "32 word"
  brightness :: double
  contrast :: double
  gamma :: double
  temperature :: "32 word"

text \<open>
  \<^verbatim>\<open>fgets(line, 256, f)\<close> in a loop cuts the text of the file into pieces: each ends
  after a newline, after \<open>n = 255\<close> characters, or at the end of the file.
\<close>

fun fgets_pieces :: "nat \<Rightarrow> string \<Rightarrow> string \<Rightarrow> string list" where
  "fgets_pieces n acc [] = (if acc = [] then [] else [rev acc])"
| "fgets_pieces n acc (c # s) =
     (if c = CHR 0x0A \<or> Suc (length acc) = n then rev (c # acc) # fgets_pieces n [] s
      else fgets_pieces n (c # acc) s)"

text \<open>A buffer read as a C string ends at its first NUL.\<close>

definition c_str :: "string \<Rightarrow> string" where
  "c_str s = takeWhile (\<lambda>c. c \<noteq> CHR 0x00) s"

definition isspace :: "char \<Rightarrow> bool" where
  "isspace c = (c \<in> {CHR '' '', CHR 0x09, CHR 0x0A, CHR 0x0B, CHR 0x0C, CHR 0x0D})"

definition is_blank :: "char \<Rightarrow> bool" where
  "is_blank c = (c = CHR '' '' \<or> c = CHR 0x09)"

text \<open>
  \<^verbatim>\<open>sscanf(line, "%63[^=]=%63s", key, value) == 2\<close>: one to 63 characters other than
  \<^verbatim>\<open>=\<close>, then \<^verbatim>\<open>=\<close>, then white space, then one to 63 characters that are not white
  space. \<open>None\<close> when fewer than two fields are assigned.
\<close>

definition sscanf_key_value :: "string \<Rightarrow> (string \<times> string) option" where
  "sscanf_key_value line =
     (let key = take 63 (takeWhile (\<lambda>c. c \<noteq> CHR ''='') line);
          rest = drop (length key) line
      in if key = [] then None
         else case rest of
                [] \<Rightarrow> None
              | c # rest \<Rightarrow>
                  if c \<noteq> CHR ''='' then None
                  else let value = take 63 (takeWhile (\<lambda>c. \<not> isspace c) (dropWhile isspace rest))
                       in if value = [] then None else Some (key, value))"

definition is_true :: "string \<Rightarrow> bool" where
  "is_true v = (v = ''true'' \<or> v = ''1'')"

text \<open>The body of the \<^verbatim>\<open>while\<close> loop, for one piece; \<open>atoi\<close> and \<open>atof\<close> are the C library's.\<close>

definition LoadConfig_line ::
  "(string \<Rightarrow> 32 word) \<Rightarrow> (string \<Rightarrow> double) \<Rightarrow> Config \<Rightarrow> string \<Rightarrow> Config" where
  "LoadConfig_line atoi atof config line =
     (case line of
        [] \<Rightarrow> config
      | c0 # _ \<Rightarrow>
          if c0 = CHR ''#'' \<or> c0 = CHR 0x0A \<or> c0 = CHR 0x0D then config
          else case sscanf_key_value (c_str line) of
                 None \<Rightarrow> config
               | Some (key, val) \<Rightarrow>
                   let k = dropWhile is_blank key;
                       v = dropWhile is_blank val
                   in if k = ''toggleAllDisplays'' then config\<lparr>toggleAllDisplays := is_true v\<rparr>
                      else if k = ''keyPressToExit'' then config\<lparr>keyPressToExit := is_true v\<rparr>
                      else if k = ''vibrance'' then config\<lparr>vibrance := atoi v\<rparr>
                      else if k = ''hue'' then config\<lparr>hue := atoi v\<rparr>
                      else if k = ''brightness'' then config\<lparr>brightness := atof v\<rparr>
                      else if k = ''contrast'' then config\<lparr>contrast := atof v\<rparr>
                      else if k = ''gamma'' then config\<lparr>gamma := atof v\<rparr>
                      else if k = ''temperature'' then
                        let t = atoi v;
                            t = (if sint t < - 100 then - 100 else t);
                            t = (if 100 < sint t then 100 else t)
                        in config\<lparr>temperature := t\<rparr>
                      else config)"

text \<open>
  \<^verbatim>\<open>bool LoadConfig(const char* filename, Config* config)\<close>. \<open>fopen filename\<close> is \<open>None\<close>
  when the file cannot be opened and its text otherwise; \<open>config\<close> is what the caller's
  structure holds at entry. The result is the return value, the structure afterwards,
  and what was printed.
\<close>

definition LoadConfig ::
  "(string \<Rightarrow> 32 word) \<Rightarrow> (string \<Rightarrow> double) \<Rightarrow> (string \<Rightarrow> string option) \<Rightarrow>
   string \<Rightarrow> Config \<Rightarrow> bool \<times> Config \<times> string list" where
  "LoadConfig atoi atof fopen filename config =
     (case fopen filename of
        None \<Rightarrow> (False, config, [''ERROR: Could not open config file: '' @ filename @ [CHR 0x0A]])
      | Some text \<Rightarrow>
          let config = config\<lparr>toggleAllDisplays := False, keyPressToExit := True,
                              vibrance := 80, hue := 7,
                              brightness := lit (60/100), contrast := lit (65/100),
                              gamma := lit (143/100), temperature := 0\<rparr>
          in (True, foldl (LoadConfig_line atoi atof) config (fgets_pieces 255 [] text), []))"

text \<open>
  \<^verbatim>\<open>main\<close>, lines 386 to 404: the path of the configuration file beside the executable
  (\<open>exePath\<close> is what \<^verbatim>\<open>GetModuleFileNameA\<close> stored), then the call of \<open>LoadConfig\<close> on
  the local \<^verbatim>\<open>Config config\<close>, which is not initialised: \<open>config\<close> is its content at
  entry.
\<close>

definition MAX_PATH :: nat where
  "MAX_PATH = 260"

definition main_configPath :: "string \<Rightarrow> string" where
  "main_configPath exePath =
     (if CHR 0x5C \<in> set exePath
      then take (MAX_PATH - 1)
             (rev (tl (dropWhile (\<lambda>c. c \<noteq> CHR 0x5C) (rev exePath)))
              @ [CHR 0x5C] @ ''native_nvcp_config.ini'')
      else ''native_nvcp_config.ini'')"

definition main_LoadConfig ::
  "(string \<Rightarrow> 32 word) \<Rightarrow> (string \<Rightarrow> double) \<Rightarrow> (string \<Rightarrow> string option) \<Rightarrow>
   string \<Rightarrow> Config \<Rightarrow> Config \<times> string list" where
  "main_LoadConfig atoi atof fopen exePath config =
     (let (ok, config, out) = LoadConfig atoi atof fopen (main_configPath exePath) config
      in (config, out @ (if \<not> ok then [''Using default configuration values.'' @ [CHR 0x0A]] else [])))"

section \<open>Toggling one display\<close>

text \<open>Lines 340 to 342: the two locals and the two queries.\<close>

definition ToggleDisplay_query ::
  "driver \<Rightarrow> NvDisplayHandle \<Rightarrow> 32 word \<times> 32 word \<times> 32 word \<times> 32 word" where
  "ToggleDisplay_query drv hNvDisplay =
     (let dvcMin = 0; dvcMax = 63;
          (currentVibranceRaw, outMin, outMax) = GetVibrance drv hNvDisplay (Some dvcMin) (Some dvcMax);
          dvcMin = (case outMin of Some v \<Rightarrow> v | None \<Rightarrow> dvcMin);
          dvcMax = (case outMax of Some v \<Rightarrow> v | None \<Rightarrow> dvcMax);
          currentHue = GetHue drv hNvDisplay
      in (dvcMin, dvcMax, currentVibranceRaw, currentHue))"

text \<open>
  \<open>ramp\<close> is the content of the local arrays at entry. The result is the list of calls
  that change the display.
\<close>

definition ToggleDisplay ::
  "(double \<Rightarrow> double \<Rightarrow> double) \<Rightarrow> driver \<Rightarrow> (HDC \<Rightarrow> ramp option) \<Rightarrow> ramp \<Rightarrow>
   NvDisplayHandle \<Rightarrow> HDC \<Rightarrow> Config \<Rightarrow> call list" where
  "ToggleDisplay pow drv GetDeviceGammaRamp ramp hNvDisplay hdc config =
     (let (dvcMin, dvcMax, currentVibranceRaw, currentHue) = ToggleDisplay_query drv hNvDisplay;
          defaultVibranceRaw = PercentToDVC DEFAULT_VIBRANCE_PCT dvcMax;
          isDefault = (sint (c_abs (currentVibranceRaw - defaultVibranceRaw)) \<le> 1 \<and>
                       currentHue = DEFAULT_HUE \<and>
                       HasDefaultGammaRamp pow GetDeviceGammaRamp ramp hdc)
      in if isDefault then
           let targetVibranceRaw = PercentToDVC (vibrance config) dvcMax
           in snd (SetVibrance drv hNvDisplay targetVibranceRaw) @
              snd (SetHue drv hNvDisplay (hue config)) @
              [Call_SetDeviceGammaRamp hdc
                 (BuildGammaRamp pow ramp (brightness config) (contrast config)
                    (gamma config) (temperature config))]
         else
           snd (SetVibrance drv hNvDisplay defaultVibranceRaw) @
           snd (SetHue drv hNvDisplay DEFAULT_HUE) @
           [Call_SetDeviceGammaRamp hdc
              (BuildGammaRamp pow ramp DEFAULT_BRIGHTNESS DEFAULT_CONTRAST DEFAULT_GAMMA 0)])"

section \<open>Auxiliary definitions for the statements and proofs\<close>

text \<open>
  The test of line 171, as a predicate of the position.
\<close>

definition near_default :: "ramp \<Rightarrow> ramp \<Rightarrow> nat \<Rightarrow> nat \<Rightarrow> bool" where
  "near_default cur dflt c i = (c < 3 \<and> i < 256 \<longrightarrow> \<bar>uint (cur ! c ! i) - uint (dflt ! c ! i)\<bar> \<le> 256)"

text \<open>
  The DVC query of \<open>GetVibrance\<close> fails: the entry point is unresolved, or the
  driver returns a status other than \<^verbatim>\<open>NVAPI_OK\<close>.
\<close>

definition DVC_query_failed :: "driver \<Rightarrow> NvDisplayHandle \<Rightarrow> bool" where
  "DVC_query_failed drv hDisplay =
     (case pfnNvAPI_GPU_GetDVCInfo drv of
        None \<Rightarrow> True
      | Some f \<Rightarrow> fst (f hDisplay 0 dvcInfo_init) \<noteq> NVAPI_OK)"

text \<open>
  The value after the optional \<^verbatim>\<open>pow\<close> (lines 123 to 128), and the rest of the
  computation on the real numbers the doubles stand for, every operation rounded.
\<close>

definition start_value :: "(double \<Rightarrow> double \<Rightarrow> double) \<Rightarrow> double \<Rightarrow> nat \<Rightarrow> double" where
  "start_value pw g i =
     (let v = ddiv (d_of_int (int i)) (Fin 255)
      in if dne g (Fin 1) then pw v (ddiv (Fin 1) g) else v)"

definition base_real :: "real \<Rightarrow> real \<Rightarrow> real \<Rightarrow> real" where
  "base_real v c b =
     min 1 (max 0 (rd (rd (rd (rd (v - 1/2) * rd (c * 2)) + 1/2) + rd (b - 1/2))))"

definition scaled_real :: "real \<Rightarrow> real \<Rightarrow> real" where
  "scaled_real v a = rd (rd (min 1 (rd (v * a)) * 65535) + 1/2)"

definition adj_real :: "int \<Rightarrow> nat \<Rightarrow> real" where
  "adj_real t ch =
     (let tf = rd (of_int t / 100)
      in if ch = 0 then rd (1 + rd (tf * rd (1/10)))
         else if ch = 1 then rd (1 + rd (tf * rd (2/100)))
         else rd (1 - rd (tf * rd (1/10))))"

text \<open>
  \<^verbatim>\<open>pow\<close> is accurate at one argument: finite, and within \<open>tol\<close> of the real power.
\<close>

definition pow_accurate :: "(double \<Rightarrow> double \<Rightarrow> double) \<Rightarrow> real \<Rightarrow> double \<Rightarrow> double \<Rightarrow> bool" where
  "pow_accurate pw tol x y = (is_fin (pw x y) \<and> \<bar>dval (pw x y) - dval x powr dval y\<bar> \<le> tol)"

section \<open>Example inputs\<close>

definition failing_query ::
  "NvDisplayHandle \<Rightarrow> 32 word \<Rightarrow> NV_GPU_DVC_INFO_V1 \<Rightarrow> NvAPI_Status \<times> NV_GPU_DVC_INFO_V1" where
  "failing_query h z info = (- 1, info\<lparr>minLevel := 5, maxLevel := 100\<rparr>)"

definition working_query ::
  "NvDisplayHandle \<Rightarrow> 32 word \<Rightarrow> NV_GPU_DVC_INFO_V1 \<Rightarrow> NvAPI_Status \<times> NV_GPU_DVC_INFO_V1" where
  "working_query h z info = (0, info\<lparr>currentLevel := 20, minLevel := 0, maxLevel := 100\<rparr>)"

definition driver_with ::
  "(NvDisplayHandle \<Rightarrow> 32 word \<Rightarrow> NV_GPU_DVC_INFO_V1 \<Rightarrow> NvAPI_Status \<times> NV_GPU_DVC_INFO_V1) option
   \<Rightarrow> driver" where
  "driver_with q =
     \<lparr>pfnNvAPI_GPU_GetDVCInfo = q, pfnNvAPI_GPU_SetDVCLevel = None,
      pfnNvAPI_GPU_GetHUEInfo = None, pfnNvAPI_GPU_SetHUEAngle = None\<rparr>"

definition default_config :: Config where
  "default_config =
     \<lparr>toggleAllDisplays = False, keyPressToExit = True, vibrance = 80, hue = 7,
      brightness = lit (60/100), contrast = lit (65/100), gamma = lit (143/100),
      temperature = 0\<rparr>"

definition garbage_config :: Config where
  "garbage_config =
     \<lparr>toggleAllDisplays = True, keyPressToExit = False, vibrance = - 7, hue = 12345,
      brightness = NaN, contrast = NInf, gamma = Fin 0, temperature = 99999\<rparr>"

definition zero_ramp :: ramp where
  "zero_ramp = replicate 3 (replicate 256 0)"

definition example_GetDeviceGammaRamp :: "HDC \<Rightarrow> ramp option" where
  "example_GetDeviceGammaRamp hdc = (if hdc = 0 then None else Some zero_ramp)"

chapter \<open>Theorems\<close>

section \<open>Vibrance unit conversion\<close>

lemma sint32_small:
  "- 2147483648 \<le> k \<Longrightarrow> k < 2147483648 \<Longrightarrow> sint (word_of_int k :: 32 word) = k"
  by (simp add: sint_sbintrunc' signed_take_bit_int_eq_self)

lemma sint_times50:
  fixes v :: "32 word"
  assumes "- 42949672 \<le> sint v" "sint v \<le> 42949672"
  shows "sint (v * 50) = sint v * 50"
proof -
  have "v * 50 = word_of_int (sint v * 50)" by simp
  then have "sint (v * 50) = sint (word_of_int (sint v * 50) :: 32 word)" by simp
  also have "\<dots> = sint v * 50" using assms by (intro sint32_small) auto
  finally show ?thesis .
qed

lemma sdiv_nonneg: "0 \<le> a \<Longrightarrow> 0 < b \<Longrightarrow> (a::int) sdiv b = a div b"
  by (simp add: signed_divide_int_def sgn_if)

lemma DVCToPercent_in_range:
  assumes M: "0 < sint M" "sint M \<le> 42949672" and v: "0 \<le> sint v" "sint v \<le> sint M"
  shows "sint (DVCToPercent v M) = 50 + (sint v * 50) div sint M"
    and "50 \<le> sint (DVCToPercent v M)" and "sint (DVCToPercent v M) \<le> 100"
proof -
  have nz: "M \<noteq> 0" using M by auto
  have p: "sint (v * 50) = sint v * 50" using M v by (intro sint_times50) auto
  let ?q = "(sint v * 50) div sint M"
  have q0: "0 \<le> ?q" using M v by (simp add: pos_imp_zdiv_nonneg_iff)
  have "sint v * 50 \<le> 50 * sint M" using v by simp
  then have "?q \<le> (50 * sint M) div sint M" by (rule zdiv_mono1) (use M in simp)
  then have q50: "?q \<le> 50" using M by simp
  have "c_div (v * 50) M = word_of_int ?q"
    using M v by (simp add: c_div_def p sdiv_nonneg)
  then have "DVCToPercent v M = word_of_int (50 + ?q)"
    using nz by (simp add: DVCToPercent_def)
  then have "sint (DVCToPercent v M) = sint (word_of_int (50 + ?q) :: 32 word)" by simp
  also have "\<dots> = 50 + ?q" using q0 q50 by (intro sint32_small) auto
  finally show "sint (DVCToPercent v M) = 50 + ?q" .
  then show "50 \<le> sint (DVCToPercent v M)" "sint (DVCToPercent v M) \<le> 100"
    using q0 q50 by auto
qed

text \<open>
  C5, as amended. For every \<^verbatim>\<open>int\<close> \<open>M > 0\<close>: \<open>PercentToDVC(50, M) = 0\<close>,
  \<open>PercentToDVC(100, M) = M\<close> and \<open>DVCToPercent(0, M) = 50\<close>; and
  \<open>DVCToPercent(M, M) = 100\<close> whenever \<open>M \<le> 42949672\<close>, the largest \<open>M\<close> for which
  \<open>M * 50\<close> fits a 32-bit \<^verbatim>\<open>int\<close>.
\<close>

theorem vibrance_endpoints:
  assumes "0 < sint M"
  shows "PercentToDVC 50 M = 0 \<and> PercentToDVC 100 M = M \<and> DVCToPercent 0 M = 50 \<and>
         (sint M \<le> 42949672 \<longrightarrow> DVCToPercent M M = 100)"
proof -
  have nz: "M \<noteq> 0" using assms by auto
  have a: "PercentToDVC 50 M = 0" "PercentToDVC 100 M = M" by (simp_all add: PercentToDVC_def)
  have b: "DVCToPercent 0 M = 50" using nz by (simp add: DVCToPercent_def c_div_def)
  have c: "DVCToPercent M M = 100" if le: "sint M \<le> 42949672"
  proof -
    have "sint (DVCToPercent M M) = 50 + (sint M * 50) div sint M"
      using assms le by (intro DVCToPercent_in_range) auto
    also have "\<dots> = 100" using assms by simp
    finally have "word_of_int (sint (DVCToPercent M M)) = (word_of_int 100 :: 32 word)" by simp
    then show ?thesis by simp
  qed
  show ?thesis using a b c by blast
qed

theorem vibrance_endpoints_witness:
  "0 < sint (63 :: 32 word) \<and> sint (63 :: 32 word) \<le> 42949672 \<and>
   PercentToDVC 50 63 = 0 \<and> PercentToDVC 100 63 = 63 \<and>
   DVCToPercent 0 63 = 50 \<and> DVCToPercent 63 63 = 100"
proof -
  have h: "0 < sint (63 :: 32 word)" and b: "sint (63 :: 32 word) \<le> 42949672" by simp_all
  from vibrance_endpoints [OF h] b show ?thesis using h by blast
qed

text \<open>
  C5 as stated fails for large \<open>M\<close>: at \<open>M = 42949673\<close> the product \<open>M * 50\<close> exceeds
  \<^verbatim>\<open>INT_MAX\<close>; wrapped, the quotient is \<open>-49\<close> and the function returns 1.
\<close>

theorem DVCToPercent_overflow_counterexample:
  "0 < sint (42949673 :: 32 word) \<and> DVCToPercent 42949673 42949673 = 1 \<and>
   DVCToPercent 42949673 42949673 \<noteq> 100"
  by (simp add: DVCToPercent_def c_div_def)

text \<open>
  C6. For every \<open>pct\<close> in \<open>{50, 60, 70, 80, 90, 100}\<close> and \<open>M = 63\<close>, converting to the raw
  level and back gives a percentage within 1 of \<open>pct\<close>.
\<close>

theorem vibrance_round_trip:
  "\<forall>pct \<in> {50, 60, 70, 80, 90, 100}.
     \<bar>sint (DVCToPercent (PercentToDVC pct 63) 63) - sint pct\<bar> \<le> 1"
  by (simp add: DVCToPercent_def PercentToDVC_def c_div_def)

theorem vibrance_round_trip_witness:
  "(80 :: 32 word) \<in> {50, 60, 70, 80, 90, 100} \<and>
   \<bar>sint (DVCToPercent (PercentToDVC 80 63) 63) - sint (80 :: 32 word)\<bar> \<le> 1"
proof -
  have h: "(80 :: 32 word) \<in> {50, 60, 70, 80, 90, 100}" by simp
  from bspec [OF vibrance_round_trip h] h show ?thesis by (rule conjI [rotated])
qed

text \<open>
  C9, as amended. \<open>PercentToDVC\<close> maps every percentage \<open>\<le> 50\<close> to 0 and every percentage
  \<open>\<ge> 100\<close> to \<open>dvcMax\<close>; \<open>DVCToPercent\<close> does not clamp, and its result lies in
  \<open>[50, 100]\<close> for a raw level in \<open>[0, dvcMax]\<close> with \<open>0 < dvcMax \<le> 42949672\<close>.
\<close>

theorem vibrance_clamped:
  "(sint p \<le> 50 \<longrightarrow> PercentToDVC p M = 0) \<and>
   (100 \<le> sint p \<longrightarrow> PercentToDVC p M = M) \<and>
   (0 < sint M \<and> sint M \<le> 42949672 \<and> 0 \<le> sint v \<and> sint v \<le> sint M \<longrightarrow>
      50 \<le> sint (DVCToPercent v M) \<and> sint (DVCToPercent v M) \<le> 100)"
  using DVCToPercent_in_range(2,3) [of M v] by (auto simp: PercentToDVC_def)

theorem vibrance_clamped_witness:
  "sint (40 :: 32 word) \<le> 50 \<and> PercentToDVC 40 63 = 0 \<and>
   100 \<le> sint (120 :: 32 word) \<and> PercentToDVC 120 63 = 63 \<and>
   0 < sint (63 :: 32 word) \<and> sint (63 :: 32 word) \<le> 42949672 \<and>
   0 \<le> sint (37 :: 32 word) \<and> sint (37 :: 32 word) \<le> sint (63 :: 32 word) \<and>
   50 \<le> sint (DVCToPercent 37 63) \<and> sint (DVCToPercent 37 63) \<le> 100"
  using vibrance_clamped [of 40 63 37] vibrance_clamped [of 120 63 37] by simp

text \<open>
  C9 as stated fails: the raw level 126 with \<open>dvcMax = 63\<close> gives 150 percent.
\<close>

theorem DVCToPercent_range_counterexample:
  "0 < sint (63 :: 32 word) \<and> sint (DVCToPercent 126 63) = 150 \<and>
   \<not> (50 \<le> sint (DVCToPercent 126 63) \<and> sint (DVCToPercent 126 63) \<le> 100)"
  by (simp add: DVCToPercent_def c_div_def)

section \<open>Loops in closed form, default detection\<close>

subsection \<open>The loops in closed form\<close>

lemma wf_ramp_set:
  "wf_ramp ramp \<Longrightarrow> wf_ramp (ramp_set ramp c i v)"
  by (cases "c < 3") (auto simp: wf_ramp_def ramp_set_def nth_list_update)

lemma ramp_set_nth:
  "wf_ramp ramp \<Longrightarrow> c < 3 \<Longrightarrow> c' < 3 \<Longrightarrow>
   ramp_set ramp c i v ! c' = (if c' = c then (ramp ! c)[i := v] else ramp ! c')"
  by (auto simp: wf_ramp_def ramp_set_def nth_list_update)

lemma wf_ramp_eq:
  assumes "wf_ramp ramp" shows "ramp = [ramp ! 0, ramp ! 1, ramp ! 2]"
proof (rule nth_equalityI)
  show "length ramp = length [ramp ! 0, ramp ! 1, ramp ! 2]" using assms by (simp add: wf_ramp_def)
  fix i assume "i < length ramp"
  then have "i = 0 \<or> i = 1 \<or> i = 2" using assms by (auto simp: wf_ramp_def)
  then show "ramp ! i = [ramp ! 0, ramp ! 1, ramp ! 2] ! i" by auto
qed

lemma take_Suc_update:
  "i < length xs \<Longrightarrow> take (Suc i) (xs[i := v]) = take i xs @ [v]"
  by (simp add: take_Suc_conv_app_nth)

lemma BuildGammaRamp_loop_closed:
  assumes "wf_ramp ramp" "i \<le> 256"
  shows "BuildGammaRamp_loop pw b c g ra ga ba i ramp =
           [take i (ramp ! 0) @ map (\<lambda>j. channel (base_value pw b c g j) ra) [i..<256],
            take i (ramp ! 1) @ map (\<lambda>j. channel (base_value pw b c g j) ga) [i..<256],
            take i (ramp ! 2) @ map (\<lambda>j. channel (base_value pw b c g j) ba) [i..<256]]"
  using assms
proof (induction pw b c g ra ga ba i ramp rule: BuildGammaRamp_loop.induct)
  case (1 pw b c g ra ga ba i ramp)
  show ?case
  proof (cases "i < 256")
    case False
    then have i: "i = 256" using "1.prems" by simp
    have len: "length (ramp ! 0) = 256" "length (ramp ! 1) = 256" "length (ramp ! 2) = 256"
      using "1.prems"(1) by (simp_all add: wf_ramp_def)
    have "BuildGammaRamp_loop pw b c g ra ga ba i ramp = ramp"
      using False by (subst BuildGammaRamp_loop.simps) simp
    also have "\<dots> = [ramp ! 0, ramp ! 1, ramp ! 2]" using "1.prems"(1) by (rule wf_ramp_eq)
    finally show ?thesis using len by (simp add: i)
  next
    case True
    define v where "v = base_value pw b c g i"
    define r1 where "r1 = ramp_set ramp 0 i (channel v ra)"
    define r2 where "r2 = ramp_set r1 1 i (channel v ga)"
    define r3 where "r3 = ramp_set r2 2 i (channel v ba)"
    have wf: "wf_ramp r1" "wf_ramp r2" "wf_ramp r3"
      using "1.prems"(1) by (simp_all add: r1_def r2_def r3_def wf_ramp_set)
    have len: "length (ramp ! 0) = 256" "length (ramp ! 1) = 256" "length (ramp ! 2) = 256"
      using "1.prems"(1) by (simp_all add: wf_ramp_def)
    have n0: "r3 ! 0 = (ramp ! 0)[i := channel v ra]"
      and n1: "r3 ! 1 = (ramp ! 1)[i := channel v ga]"
      and n2: "r3 ! 2 = (ramp ! 2)[i := channel v ba]"
      using "1.prems"(1) wf by (simp_all add: r1_def r2_def r3_def ramp_set_nth wf_ramp_set)
    have step: "BuildGammaRamp_loop pw b c g ra ga ba i ramp =
                BuildGammaRamp_loop pw b c g ra ga ba (i + 1) r3"
      using True by (subst BuildGammaRamp_loop.simps) (simp add: Let_def v_def r1_def r2_def r3_def)
    have ih: "BuildGammaRamp_loop pw b c g ra ga ba (i + 1) r3 =
           [take (i + 1) (r3 ! 0) @ map (\<lambda>j. channel (base_value pw b c g j) ra) [i + 1..<256],
            take (i + 1) (r3 ! 1) @ map (\<lambda>j. channel (base_value pw b c g j) ga) [i + 1..<256],
            take (i + 1) (r3 ! 2) @ map (\<lambda>j. channel (base_value pw b c g j) ba) [i + 1..<256]]"
      using True wf(3)
      by (intro "1.IH" [OF True v_def r1_def r2_def r3_def]) auto
    have up: "[i..<256] = i # [i + 1..<256]" using True by (simp add: upt_conv_Cons)
    show ?thesis
      unfolding step ih n0 n1 n2 up using True len
      by (simp add: take_Suc_update v_def)
  qed
qed

lemma BuildGammaRamp_closed:
  assumes "wf_ramp ramp"
  shows "BuildGammaRamp pw ramp b c g t =
     (let tempFactor = ddiv (d_of_int (sint t)) (Fin 100);
          redAdj = dadd (Fin 1) (dmul tempFactor (lit (1/10)));
          blueAdj = dsub (Fin 1) (dmul tempFactor (lit (1/10)));
          greenAdj = dadd (Fin 1) (dmul tempFactor (lit (2/100)))
      in [map (\<lambda>j. channel (base_value pw b c g j) redAdj) [0..<256],
          map (\<lambda>j. channel (base_value pw b c g j) greenAdj) [0..<256],
          map (\<lambda>j. channel (base_value pw b c g j) blueAdj) [0..<256]])"
  using assms by (simp add: BuildGammaRamp_def Let_def BuildGammaRamp_loop_closed)

lemma all_above_Suc:
  "(P (Suc c) \<and> (\<forall>c'. Suc c < c' \<longrightarrow> P c')) = (\<forall>c'. c < c' \<longrightarrow> P c')"
  by (metis Suc_lessI Suc_lessD lessI)

lemma all_from_Suc:
  "Q i \<Longrightarrow> (\<forall>j. Suc i \<le> j \<longrightarrow> Q j) = (\<forall>j. i \<le> j \<longrightarrow> Q j)"
  by (metis Suc_leI le_neq_implies_less Suc_leD)

lemma HasDefaultGammaRamp_loop_iff:
  "HasDefaultGammaRamp_loop cur dflt c i =
     ((\<forall>j. i \<le> j \<longrightarrow> near_default cur dflt c j) \<and>
      (\<forall>c'. c < c' \<longrightarrow> (\<forall>j. near_default cur dflt c' j)))"
proof (induction cur dflt c i rule: HasDefaultGammaRamp_loop.induct)
  case (1 cur dflt c i)
  let ?ok = "near_default cur dflt"
  consider (stop) "\<not> c < 3" | (row) "c < 3" "\<not> i < 256" | (bad) "c < 3" "i < 256" "\<not> ?ok c i"
    | (good) "c < 3" "i < 256" "?ok c i" by blast
  then show ?case
  proof cases
    case stop
    then have "HasDefaultGammaRamp_loop cur dflt c i = True"
      by (subst HasDefaultGammaRamp_loop.simps) simp
    moreover have "?ok c' j" if "c \<le> c'" for c' j using stop that by (simp add: near_default_def)
    ultimately show ?thesis by simp
  next
    case row
    have "HasDefaultGammaRamp_loop cur dflt c i = HasDefaultGammaRamp_loop cur dflt (c + 1) 0"
      using row by (subst HasDefaultGammaRamp_loop.simps) simp
    also have "\<dots> = ((\<forall>j. 0 \<le> j \<longrightarrow> ?ok (c + 1) j) \<and>
                      (\<forall>c'. c + 1 < c' \<longrightarrow> (\<forall>j. ?ok c' j)))"
      using row by (intro "1.IH"(2)) auto
    also have "\<dots> = (\<forall>c'. c < c' \<longrightarrow> (\<forall>j. ?ok c' j))"
      using all_above_Suc [of "\<lambda>c'. \<forall>j. ?ok c' j" c] by simp
    also have "\<dots> = ((\<forall>j. i \<le> j \<longrightarrow> ?ok c j) \<and> (\<forall>c'. c < c' \<longrightarrow> (\<forall>j. ?ok c' j)))"
      using row by (auto simp: near_default_def)
    finally show ?thesis .
  next
    case bad
    have "HasDefaultGammaRamp_loop cur dflt c i = False"
      using bad by (subst HasDefaultGammaRamp_loop.simps) (simp add: near_default_def)
    then show ?thesis using bad by auto
  next
    case good
    have "HasDefaultGammaRamp_loop cur dflt c i = HasDefaultGammaRamp_loop cur dflt c (i + 1)"
      using good by (subst HasDefaultGammaRamp_loop.simps) (simp add: near_default_def)
    also have "\<dots> = ((\<forall>j. i + 1 \<le> j \<longrightarrow> ?ok c j) \<and>
                      (\<forall>c'. c < c' \<longrightarrow> (\<forall>j. ?ok c' j)))"
      using good by (intro "1.IH"(1)) (auto simp: near_default_def)
    also have "(\<forall>j. i + 1 \<le> j \<longrightarrow> ?ok c j) = (\<forall>j. i \<le> j \<longrightarrow> ?ok c j)"
      using all_from_Suc [of "?ok c" i] good(3) by simp
    finally show ?thesis .
  qed
qed

lemma HasDefaultGammaRamp_loop_all:
  "HasDefaultGammaRamp_loop cur dflt 0 0 =
     (\<forall>c<3. \<forall>i<256. \<bar>uint (cur ! c ! i) - uint (dflt ! c ! i)\<bar> \<le> 256)"
proof -
  have "HasDefaultGammaRamp_loop cur dflt 0 0 = (\<forall>c j. near_default cur dflt c j)"
    unfolding HasDefaultGammaRamp_loop_iff by (metis bot_nat_0.not_eq_extremum le0)
  then show ?thesis by (auto simp: near_default_def)
qed

text \<open>
  C1. \<open>HasDefaultGammaRamp\<close> returns true when the current gamma table cannot be read.
  When it is read, the result is true if and only if, for every channel \<open>c < 3\<close> and
  every index \<open>i < 256\<close>, the current sample and the sample of the table built from the
  neutral adjustment (brightness 0.5, contrast 0.5, gamma 1.0, temperature 0) differ by
  at most 256.
\<close>

theorem HasDefaultGammaRamp_spec:
  "(GetDeviceGammaRamp hdc = None \<longrightarrow> HasDefaultGammaRamp pw GetDeviceGammaRamp defaultRamp hdc) \<and>
   (\<forall>currentRamp. GetDeviceGammaRamp hdc = Some currentRamp \<longrightarrow>
      HasDefaultGammaRamp pw GetDeviceGammaRamp defaultRamp hdc =
        (\<forall>c<3. \<forall>i<256.
           \<bar>uint (currentRamp ! c ! i) -
            uint (BuildGammaRamp pw defaultRamp (Fin (1/2)) (Fin (1/2)) (Fin 1) 0 ! c ! i)\<bar> \<le> 256))"
  by (simp add: HasDefaultGammaRamp_def HasDefaultGammaRamp_loop_all
      DEFAULT_BRIGHTNESS_def DEFAULT_CONTRAST_def DEFAULT_GAMMA_def)

section \<open>GetVibrance and LoadConfig\<close>

text \<open>
  C10. When the DVC query fails (the entry point is unresolved, or the status is not
  \<^verbatim>\<open>NVAPI_OK\<close>), \<open>GetVibrance\<close> returns 0 and leaves what \<open>outMin\<close> and \<open>outMax\<close> point to
  unchanged, whatever the driver wrote into its structure, so \<open>ToggleDisplay\<close> goes on
  with \<open>dvcMin = 0\<close> and \<open>dvcMax = 63\<close>. When the query succeeds, the two outputs
  receive the driver's minimum and maximum.
\<close>

theorem GetVibrance_frame:
  "(DVC_query_failed drv hDisplay \<longrightarrow>
      GetVibrance drv hDisplay outMin outMax = (0, outMin, outMax) \<and>
      ToggleDisplay_query drv hDisplay = (0, 63, 0, GetHue drv hDisplay)) \<and>
   (\<forall>f info. pfnNvAPI_GPU_GetDVCInfo drv = Some f \<and> f hDisplay 0 dvcInfo_init = (NVAPI_OK, info) \<longrightarrow>
      GetVibrance drv hDisplay outMin outMax =
        (currentLevel info, map_option (\<lambda>_. minLevel info) outMin,
         map_option (\<lambda>_. maxLevel info) outMax) \<and>
      ToggleDisplay_query drv hDisplay =
        (minLevel info, maxLevel info, currentLevel info, GetHue drv hDisplay))"
proof -
  have fail: "GetVibrance drv hDisplay a b = (0, a, b)" if "DVC_query_failed drv hDisplay" for a b
    using that
    by (auto simp: DVC_query_failed_def GetVibrance_def Let_def split: option.splits prod.splits)
  have ok: "GetVibrance drv hDisplay a b =
        (currentLevel info, map_option (\<lambda>_. minLevel info) a, map_option (\<lambda>_. maxLevel info) b)"
    if "pfnNvAPI_GPU_GetDVCInfo drv = Some f" "f hDisplay 0 dvcInfo_init = (NVAPI_OK, info)"
    for f info a b
    using that by (cases a; cases b) (simp_all add: GetVibrance_def)
  show ?thesis
    by (auto simp: ToggleDisplay_query_def fail ok)
qed

theorem GetVibrance_frame_witness:
  "DVC_query_failed (driver_with None) 0 \<and>
   ToggleDisplay_query (driver_with None) 0 = (0, 63, 0, GetHue (driver_with None) 0) \<and>
   DVC_query_failed (driver_with (Some failing_query)) 0 \<and>
   GetVibrance (driver_with (Some failing_query)) 0 (Some 0) (Some 63) = (0, Some 0, Some 63) \<and>
   pfnNvAPI_GPU_GetDVCInfo (driver_with (Some working_query)) = Some working_query \<and>
   working_query 0 0 dvcInfo_init =
     (NVAPI_OK, dvcInfo_init\<lparr>currentLevel := 20, minLevel := 0, maxLevel := 100\<rparr>) \<and>
   GetVibrance (driver_with (Some working_query)) 0 (Some 0) (Some 63) = (20, Some 0, Some 100)"
proof -
  let ?info = "dvcInfo_init\<lparr>currentLevel := 20, minLevel := 0, maxLevel := 100\<rparr>"
  have h0: "DVC_query_failed (driver_with None) 0"
    by (simp add: DVC_query_failed_def driver_with_def)
  have h1: "DVC_query_failed (driver_with (Some failing_query)) 0"
    by (simp add: DVC_query_failed_def driver_with_def failing_query_def NVAPI_OK_def)
  have w: "pfnNvAPI_GPU_GetDVCInfo (driver_with (Some working_query)) = Some working_query \<and>
           working_query 0 0 dvcInfo_init = (NVAPI_OK, ?info)"
    by (simp add: driver_with_def working_query_def NVAPI_OK_def)
  have 0: "ToggleDisplay_query (driver_with None) 0 = (0, 63, 0, GetHue (driver_with None) 0)"
    using GetVibrance_frame [of "driver_with None" 0 None None, THEN conjunct1, rule_format, OF h0]
    by (rule conjunct2)
  have 1: "GetVibrance (driver_with (Some failing_query)) 0 (Some 0) (Some 63) = (0, Some 0, Some 63)"
    using GetVibrance_frame [of "driver_with (Some failing_query)" 0 "Some 0" "Some 63",
        THEN conjunct1, rule_format, OF h1]
    by (rule conjunct1)
  have "GetVibrance (driver_with (Some working_query)) 0 (Some 0) (Some 63) =
          (currentLevel ?info, map_option (\<lambda>_. minLevel ?info) (Some (0::32 word)),
           map_option (\<lambda>_. maxLevel ?info) (Some (63::32 word)))"
    using GetVibrance_frame [of "driver_with (Some working_query)" 0 "Some 0" "Some 63",
        THEN conjunct2, rule_format, OF w]
    by (rule conjunct1)
  then have 2: "GetVibrance (driver_with (Some working_query)) 0 (Some 0) (Some 63) = (20, Some 0, Some 100)"
    by simp
  show ?thesis using h0 h1 w 0 1 2 by blast
qed

lemma LoadConfig_empty_file:
  "fopen filename = Some [] \<Longrightarrow>
   LoadConfig atoi atof fopen filename config = (True, default_config, [])"
  by (simp add: LoadConfig_def default_config_def)

text \<open>
  C4 at the failing input: when the file cannot be opened, \<open>LoadConfig\<close> returns false
  before it assigns the defaults, the caller's structure keeps the content it had, and
  \<^verbatim>\<open>main\<close> goes on with it after printing that it uses the default values.
\<close>

theorem LoadConfig_missing_file:
  "LoadConfig atoi atof (\<lambda>_. None) filename config =
     (False, config, [''ERROR: Could not open config file: '' @ filename @ [CHR 0x0A]]) \<and>
   main_LoadConfig atoi atof (\<lambda>_. None) exePath config =
     (config, [''ERROR: Could not open config file: '' @ main_configPath exePath @ [CHR 0x0A],
               ''Using default configuration values.'' @ [CHR 0x0A]])"
  by (simp add: LoadConfig_def main_LoadConfig_def)

lemma main_missing_file_not_default:
  "fst (main_LoadConfig atoi atof (\<lambda>_. None) exePath garbage_config) \<noteq> default_config"
  by (simp add: LoadConfig_def main_LoadConfig_def garbage_config_def default_config_def)

lemma config_example:
  "fst (snd (LoadConfig (\<lambda>s. if s = ''90'' then 90 else if s = ''10'' then 10 else 0) (\<lambda>_. NaN)
     (\<lambda>_. Some (''vibrance=90'' @ [CHR 0x0A] @ ''#comment'' @ [CHR 0x0A] @ ''hue=10'' @ [CHR 0x0A])) [] garbage_config))
   = default_config\<lparr>vibrance := 90, hue := 10\<rparr>"
  by (simp add: LoadConfig_def default_config_def LoadConfig_line_def sscanf_key_value_def
      c_str_def isspace_def is_blank_def is_true_def)

section \<open>Rounding to binary64\<close>

subsection \<open>Rounding\<close>

lemma rne_cases:
  "rne y = \<lfloor>y\<rfloor> \<or> rne y = \<lfloor>y\<rfloor> + 1"
  by (simp add: rne_def Let_def)

lemma rne_err: "\<bar>of_int (rne y) - y\<bar> \<le> 1/2"
proof -
  have "of_int \<lfloor>y\<rfloor> \<le> y" "y < of_int \<lfloor>y\<rfloor> + 1" by linarith+
  then show ?thesis by (auto simp: rne_def Let_def)
qed

lemma rne_of_int [simp]: "rne (of_int n) = n"
  by (simp add: rne_def)

lemma rne_mono: assumes "x \<le> y" shows "rne x \<le> rne y"
proof (cases "\<lfloor>x\<rfloor> = \<lfloor>y\<rfloor>")
  case True
  then show ?thesis using assms by (auto simp: rne_def Let_def)
next
  case False
  then have "\<lfloor>x\<rfloor> < \<lfloor>y\<rfloor>" using floor_mono [OF assms] by linarith
  moreover have "rne x \<le> \<lfloor>x\<rfloor> + 1" "\<lfloor>y\<rfloor> \<le> rne y"
    using rne_cases [of x] rne_cases [of y] by auto
  ultimately show ?thesis by linarith
qed

lemma rne_minus: "rne (- y) = - rne y"
proof (cases "y \<in> \<int>")
  case True
  then obtain n where "y = of_int n" by (auto elim: Ints_cases)
  then show ?thesis by (simp flip: of_int_minus)
next
  case False
  then have "y \<noteq> of_int \<lfloor>y\<rfloor>" by (metis Ints_of_int)
  then have f: "\<lfloor>- y\<rfloor> = - \<lfloor>y\<rfloor> - 1"
    by (simp add: ceiling_altdef floor_minus)
  show ?thesis
    unfolding rne_def Let_def f by (auto simp: algebra_simps)
qed

lemma rne_ge: "of_int n \<le> y \<Longrightarrow> n \<le> rne y"
  using rne_mono [of "of_int n" y] by simp

lemma rne_le: "y \<le> of_int n \<Longrightarrow> rne y \<le> n"
  using rne_mono [of y "of_int n"] by simp

lemma ilog2_bounds:
  assumes "0 < x"
  shows "2 powi ilog2 x \<le> x" and "x < 2 powi (ilog2 x + 1)"
proof -
  have "2 powi ilog2 x \<le> x \<and> x < 2 powi (ilog2 x + 1)"
  proof (cases "1 \<le> x")
    case True
    let ?n = "\<lfloor>x\<rfloor>"
    have n: "0 < ?n" using True by simp
    have k: "ilog2 x = bitlen ?n - 1" using True by (simp add: ilog2_def)
    have b: "1 \<le> bitlen ?n" using n bitlen_eq_zero_iff [of ?n] bitlen_nonneg [of ?n] by linarith
    from bitlen_bounds [OF n] have lo: "2 ^ nat (bitlen ?n - 1) \<le> ?n" and hi: "?n < 2 ^ nat (bitlen ?n)"
      by auto
    have "(2::real) powi (bitlen ?n - 1) = 2 ^ nat (bitlen ?n - 1)"
      using b by (simp add: power_int_def)
    also have "\<dots> = of_int (2 ^ nat (bitlen ?n - 1))" by simp
    also have "\<dots> \<le> of_int ?n" using lo by (simp only: of_int_le_iff)
    also have "\<dots> \<le> x" by simp
    finally have 1: "2 powi ilog2 x \<le> x" by (simp add: k)
    have "?n + 1 \<le> 2 ^ nat (bitlen ?n)" using hi by simp
    then have "of_int (?n + 1) \<le> (of_int (2 ^ nat (bitlen ?n)) :: real)" by (simp only: of_int_le_iff)
    then have "of_int ?n + 1 \<le> (2::real) ^ nat (bitlen ?n)" by simp
    moreover have "x < of_int ?n + 1" by linarith
    ultimately have "x < 2 ^ nat (bitlen ?n)" by linarith
    also have "\<dots> = 2 powi (bitlen ?n)" using b by (simp add: power_int_def)
    finally have 2: "x < 2 powi (ilog2 x + 1)" by (simp add: k)
    show ?thesis using 1 2 by simp
  next
    case False
    define y where "y = 1 / x"
    define m where "m = \<lceil>y\<rceil> - 1"
    have y1: "1 < y" using False assms by (simp add: y_def)
    have my: "of_int m < y" "y \<le> of_int m + 1" unfolding m_def by linarith+
    have m: "0 < m" using y1 my(2) by linarith
    have k: "ilog2 x = - bitlen m" using False by (simp add: ilog2_def m_def y_def)
    have b: "1 \<le> bitlen m" using m bitlen_eq_zero_iff [of m] bitlen_nonneg [of m] by linarith
    from bitlen_bounds [OF m] have lo: "2 ^ nat (bitlen m - 1) \<le> m" and hi: "m < 2 ^ nat (bitlen m)"
      by auto
    from hi have "m + 1 \<le> 2 ^ nat (bitlen m)" by simp
    then have "of_int (m + 1) \<le> (of_int (2 ^ nat (bitlen m)) :: real)"
      by (simp only: of_int_le_iff)
    then have "of_int m + 1 \<le> (2::real) ^ nat (bitlen m)" by simp
    then have "y \<le> 2 ^ nat (bitlen m)" using my by linarith
    also have "\<dots> = 2 powi (bitlen m)" using b by (simp add: power_int_def)
    finally have "1 / x \<le> 2 powi bitlen m" by (simp add: y_def)
    then have "1 \<le> 2 powi bitlen m * x" using assms by (simp add: field_simps)
    then have 1: "2 powi ilog2 x \<le> x"
      by (simp add: k power_int_minus field_simps)
    have "(2::real) powi (bitlen m - 1) = 2 ^ nat (bitlen m - 1)"
      using b by (simp add: power_int_def)
    also have "\<dots> = of_int (2 ^ nat (bitlen m - 1))" by simp
    also have "\<dots> \<le> of_int m" using lo by (simp only: of_int_le_iff)
    also have "\<dots> < y" using my by simp
    finally have "2 powi (bitlen m - 1) * x < 1" using assms by (simp add: field_simps y_def)
    moreover have "(2::real) powi (bitlen m - 1) = 1 / 2 powi (1 - bitlen m)"
      using power_int_minus_divide [of "2::real" "1 - bitlen m"] by simp
    ultimately have 2: "x < 2 powi (ilog2 x + 1)"
      by (simp add: k field_simps)
    show ?thesis using 1 2 by simp
  qed
  then show "2 powi ilog2 x \<le> x" and "x < 2 powi (ilog2 x + 1)" by auto
qed

lemma ilog2_unique:
  assumes "2 powi k \<le> x" "x < 2 powi (k + 1)"
  shows "ilog2 x = k"
proof -
  have x: "0 < x" using assms(1) zero_less_power_int [of "2::real" k] by linarith
  note b = ilog2_bounds [OF x]
  have "(2::real) powi k < 2 powi (ilog2 x + 1)" using assms(1) b(2) by linarith
  then have 1: "k < ilog2 x + 1"
    by (smt (verit) power_int_increasing)
  have "(2::real) powi ilog2 x < 2 powi (k + 1)" using assms(2) b(1) by linarith
  then have 2: "ilog2 x < k + 1"
    by (smt (verit) power_int_increasing)
  show ?thesis using 1 2 by linarith
qed

lemma ilog2_mono:
  assumes "0 < x" "x \<le> y" shows "ilog2 x \<le> ilog2 y"
proof -
  have "(2::real) powi ilog2 x < 2 powi (ilog2 y + 1)"
    using ilog2_bounds(1) [OF assms(1)] ilog2_bounds(2) [of y] assms by linarith
  then have "ilog2 x < ilog2 y + 1" by (smt (verit) power_int_increasing)
  then show ?thesis by simp
qed

lemma p2_pos [simp]: "0 < (2::real) powi e"
  by (simp add: zero_less_power_int)

lemma p2_mono: "a \<le> b \<Longrightarrow> (2::real) powi a \<le> 2 powi b"
  by (simp add: power_int_increasing)

lemma p2_add: "(2::real) powi (a + b) = 2 powi a * 2 powi b"
  by (simp add: power_int_add)

lemma p2_diff: "(2::real) powi (a - b) = 2 powi a / 2 powi b"
  by (simp add: power_int_diff)

lemma p2_nat: "0 \<le> a \<Longrightarrow> (2::real) powi a = of_int (2 ^ nat a)"
  by (simp add: power_int_def)

lemma dexp_minus [simp]: "dexp (- x) = dexp x"
  by (simp add: dexp_def)

lemma dexp_ge: "- 1074 \<le> dexp x"
  by (simp add: dexp_def)

lemma rne_0 [simp]: "rne 0 = 0"
  using rne_of_int [of 0] by simp

lemma dexp_abs [simp]: "dexp \<bar>x\<bar> = dexp x"
  by (simp add: dexp_def)

lemma rd_0 [simp]: "rd 0 = 0"
  by (simp add: rd_def)

lemma rd_minus: "rd (- x) = - rd x"
  by (simp add: rd_def rne_minus)

lemma rd_nonneg: "0 \<le> x \<Longrightarrow> 0 \<le> rd x"
proof -
  assume "0 \<le> x"
  then have "of_int 0 \<le> x / 2 powi dexp x" by simp
  then have "0 \<le> rne (x / 2 powi dexp x)" by (rule rne_ge)
  then show ?thesis by (simp add: rd_def)
qed

lemma dexp_mono: assumes "0 < x" "x \<le> y" shows "dexp x \<le> dexp y"
  using ilog2_mono [of "\<bar>x\<bar>" "\<bar>y\<bar>"] assms by (simp add: dexp_def)

lemma scaled_less:
  assumes "0 < x" shows "x / 2 powi dexp x < 2 ^ 53"
proof -
  have "x < 2 powi (ilog2 x + 1)" using ilog2_bounds(2) [OF assms] .
  also have "\<dots> \<le> 2 powi (dexp x + 53)"
    using assms by (intro p2_mono) (simp add: dexp_def)
  also have "\<dots> = 2 powi dexp x * 2 ^ 53" by (simp add: p2_add)
  finally show ?thesis by (simp add: field_simps)
qed

lemma scaled_ge:
  assumes "0 < x" "- 1074 < dexp x" shows "2 ^ 52 \<le> x / 2 powi dexp x"
proof -
  have e: "dexp x = ilog2 x - 52" using assms by (simp add: dexp_def split: if_splits)
  have "2 powi dexp x * 2 ^ 52 = (2::real) powi (dexp x + 52)" by (simp add: p2_add)
  also have "\<dots> = 2 powi ilog2 x" by (simp add: e)
  also have "\<dots> \<le> x" using ilog2_bounds(1) [OF assms(1)] .
  finally show ?thesis by (simp add: field_simps)
qed

lemma rd_upper: assumes "0 < x" shows "rd x \<le> 2 powi (dexp x + 53)"
proof -
  have "x / 2 powi dexp x \<le> of_int (2 ^ 53)" using scaled_less [OF assms] by simp
  then have "rne (x / 2 powi dexp x) \<le> 2 ^ 53" by (rule rne_le)
  then have "(of_int (rne (x / 2 powi dexp x)) :: real) \<le> of_int (2 ^ 53)"
    by (simp only: of_int_le_iff)
  then have "rd x \<le> 2 ^ 53 * 2 powi dexp x" using assms by (simp add: rd_def)
  then show ?thesis by (simp add: p2_add mult.commute)
qed

lemma rd_lower: assumes "0 < x" "- 1074 < dexp x" shows "2 powi (dexp x + 52) \<le> rd x"
proof -
  have "of_int (2 ^ 52) \<le> x / 2 powi dexp x" using scaled_ge [OF assms] by simp
  then have "2 ^ 52 \<le> rne (x / 2 powi dexp x)" by (rule rne_ge)
  then have "(of_int (2 ^ 52) :: real) \<le> of_int (rne (x / 2 powi dexp x))"
    by (simp only: of_int_le_iff)
  then have "2 ^ 52 * 2 powi dexp x \<le> rd x" using assms by (simp add: rd_def)
  then show ?thesis by (simp add: p2_add mult.commute)
qed

lemma rd_mono_pos: assumes "0 < x" "x \<le> y" shows "rd x \<le> rd y"
proof (cases "dexp x = dexp y")
  case True
  have "x / 2 powi dexp y \<le> y / 2 powi dexp y" using assms by (simp add: divide_right_mono)
  then have "rne (x / 2 powi dexp y) \<le> rne (y / 2 powi dexp y)" by (rule rne_mono)
  then have "(of_int (rne (x / 2 powi dexp y)) :: real) \<le> of_int (rne (y / 2 powi dexp y))"
    by (simp only: of_int_le_iff)
  then show ?thesis using assms by (simp add: rd_def True)
next
  case False
  then have lt: "dexp x < dexp y" using dexp_mono [OF assms] by simp
  then have "- 1074 < dexp y" using dexp_ge [of x] by linarith
  then have "2 powi (dexp y + 52) \<le> rd y" using assms by (intro rd_lower) auto
  moreover have "rd x \<le> 2 powi (dexp x + 53)" using assms by (intro rd_upper)
  moreover have "(2::real) powi (dexp x + 53) \<le> 2 powi (dexp y + 52)"
    using lt by (intro p2_mono) simp
  ultimately show ?thesis by linarith
qed

lemma rd_mono: assumes "x \<le> y" shows "rd x \<le> rd y"
proof -
  consider "0 < x" | "x \<le> 0" "0 \<le> y" | "y < 0" by linarith
  then show ?thesis
  proof cases
    case 1
    then show ?thesis using assms by (rule rd_mono_pos)
  next
    case 2
    then have "rd x \<le> 0" "0 \<le> rd y"
      using rd_nonneg [of "- x"] rd_nonneg [of y] by (simp_all add: rd_minus)
    then show ?thesis by simp
  next
    case 3
    then have "rd (- y) \<le> rd (- x)" using assms by (intro rd_mono_pos) auto
    then show ?thesis by (simp add: rd_minus)
  qed
qed

lemma rd_err: "\<bar>rd x - x\<bar> \<le> 2 powi dexp x / 2"
proof (cases "x = 0")
  case True
  then show ?thesis by simp
next
  case False
  let ?p = "(2::real) powi dexp x"
  have "rd x - x = (of_int (rne (x / ?p)) - x / ?p) * ?p"
    using False by (simp add: rd_def field_simps)
  then have "\<bar>rd x - x\<bar> = \<bar>of_int (rne (x / ?p)) - x / ?p\<bar> * ?p"
    by (simp add: abs_mult)
  also have "\<dots> \<le> 1/2 * ?p"
    by (intro mult_right_mono rne_err) simp
  finally show ?thesis by simp
qed

lemma dexp_le: assumes "x \<noteq> 0" "\<bar>x\<bar> < 2 powi k" "- 1021 \<le> k" shows "dexp x \<le> k - 53"
proof -
  have "0 < \<bar>x\<bar>" using assms(1) by simp
  from ilog2_bounds(1) [OF this] assms(2) have "(2::real) powi ilog2 \<bar>x\<bar> < 2 powi k" by linarith
  then have "ilog2 \<bar>x\<bar> < k" by (smt (verit) power_int_increasing)
  then show ?thesis using assms(3) by (simp add: dexp_def)
qed

text \<open>Absolute error below a power of two.\<close>
lemma rd_err_below: assumes "\<bar>x\<bar> \<le> 2 powi k" "- 1021 \<le> k" shows "\<bar>rd x - x\<bar> \<le> 2 powi (k - 54)"
proof (cases "\<bar>x\<bar> = 2 powi k")
  case False
  show ?thesis
  proof (cases "x = 0")
    case True then show ?thesis by simp
  next
    case nz: False
  from False have "\<bar>x\<bar> < 2 powi k" using assms by simp
  with nz have "dexp x \<le> k - 53" using assms(2) by (intro dexp_le)
  then have "(2::real) powi dexp x \<le> 2 powi (k - 53)" by (rule p2_mono)
  also have "\<dots> = 2 * 2 powi (k - 54)"
    using p2_add [of 1 "k - 54"] by simp
  finally show ?thesis using rd_err [of x] by linarith
  qed
next
  case True
  have x0: "x \<noteq> 0" using True p2_pos [of k] by auto
  have x: "\<bar>x\<bar> < 2 powi (k + 1)" unfolding True by (intro power_int_strict_increasing) auto
  have "ilog2 \<bar>x\<bar> = k" by (rule ilog2_unique) (use True x in auto)
  then have e: "dexp x = k - 52" using assms(2) by (simp add: dexp_def)
  have "\<bar>x\<bar> / 2 powi dexp x = 2 powi 52" by (simp add: True e p2_diff)
  then have "\<bar>x\<bar> / 2 powi dexp x = of_int (2 ^ 52)" by simp
  then have "rne (\<bar>x\<bar> / 2 powi dexp x) = 2 ^ 52" by (simp only: rne_of_int)
  then have "rd \<bar>x\<bar> = 2 ^ 52 * 2 powi dexp x" using x0 by (simp add: rd_def)
  also have "\<dots> = \<bar>x\<bar>" using p2_add [of 52 "k - 52"] by (simp add: True e)
  finally have "rd \<bar>x\<bar> = \<bar>x\<bar>" .
  then have "rd x = x" by (cases "0 \<le> x") (auto simp: rd_minus abs_if)
  then show ?thesis by simp
qed

lemma rd_fix:
  assumes n: "\<bar>n\<bar> < 2 ^ 53" and e: "- 1074 \<le> e"
  shows "rd (of_int n * 2 powi e) = of_int n * 2 powi e"
proof (cases "n = 0")
  case True then show ?thesis by simp
next
  case False
  define x :: real where "x = of_int n * 2 powi e"
  have ax: "\<bar>x\<bar> = of_int \<bar>n\<bar> * 2 powi e" by (simp add: x_def abs_mult)
  have "of_int \<bar>n\<bar> < (of_int (2 ^ 53) :: real)" using n by (simp only: of_int_less_iff)
  then have "\<bar>x\<bar> < 2 ^ 53 * 2 powi e" unfolding ax by (intro mult_strict_right_mono) auto
  also have "\<dots> = 2 powi (e + 53)" by (simp add: p2_add)
  finally have lt: "\<bar>x\<bar> < 2 powi (e + 53)" .
  have x0: "0 < \<bar>x\<bar>" using False by (simp add: x_def)
  from ilog2_bounds(1) [OF x0] lt have "(2::real) powi ilog2 \<bar>x\<bar> < 2 powi (e + 53)" by linarith
  then have "ilog2 \<bar>x\<bar> < e + 53" by (smt (verit) power_int_increasing)
  then have de: "dexp x \<le> e" using e by (simp add: dexp_def)
  have "x / 2 powi dexp x = of_int n * 2 powi (e - dexp x)" by (simp add: x_def p2_diff)
  also have "\<dots> = of_int (n * 2 ^ nat (e - dexp x))" using de by (simp add: p2_nat)
  finally have "rne (x / 2 powi dexp x) = n * 2 ^ nat (e - dexp x)" by (simp only: rne_of_int)
  then have "rd x = of_int (n * 2 ^ nat (e - dexp x)) * 2 powi dexp x" using x0 by (simp add: rd_def)
  also have "\<dots> = of_int n * (2 powi (e - dexp x) * 2 powi dexp x)" using de by (simp add: p2_nat)
  also have "\<dots> = x" using p2_add [of "e - dexp x" "dexp x"] by (simp add: x_def)
  finally show ?thesis by (simp add: x_def)
qed

lemma rd_of_int: "\<bar>n\<bar> < 2 ^ 53 \<Longrightarrow> rd (of_int n) = of_int n"
  using rd_fix [of n 0] by simp

lemma rd_half_int: "\<bar>n\<bar> < 2 ^ 53 \<Longrightarrow> rd (of_int n / 2) = of_int n / 2"
  using rd_fix [of n "- 1"] by (simp add: power_int_minus)

subsection \<open>Operations on finite values\<close>

lemma rd_le: "x \<le> B \<Longrightarrow> rd B = B \<Longrightarrow> rd x \<le> B"
  using rd_mono [of x B] by simp

lemma rd_ge: "B \<le> x \<Longrightarrow> rd B = B \<Longrightarrow> B \<le> rd x"
  using rd_mono [of B x] by simp

lemma rd_abs_le: "\<bar>x\<bar> \<le> B \<Longrightarrow> rd B = B \<Longrightarrow> \<bar>rd x\<bar> \<le> B"
  using rd_le [of x B] rd_ge [of "- B" x] by (simp add: rd_minus abs_le_iff)

lemma rd_numeral [simp]:
  "rd 1 = 1" "rd 2 = 2" "rd (1/2) = 1/2" "rd 65535 = 65535" "rd (131071/2) = 131071/2"
  "rd 131072 = 131072" "rd (1/8) = 1/8" "rd (9/8) = 9/8" "rd (7/8) = 7/8" "rd (3/2) = 3/2"
  using rd_of_int [of 1] rd_of_int [of 2] rd_half_int [of 1] rd_of_int [of 65535]
    rd_half_int [of 131071] rd_of_int [of 131072] rd_fix [of 1 "- 3"] rd_fix [of 9 "- 3"]
    rd_fix [of 7 "- 3"] rd_half_int [of 3]
  by (simp_all add: power_int_minus)

lemma is_fin_cases: "is_fin a \<Longrightarrow> (\<And>r. a = Fin r \<Longrightarrow> P) \<Longrightarrow> (a = NegZero \<Longrightarrow> P) \<Longrightarrow> P"
  by (cases a) auto

lemma is_fin_not [simp]: "is_fin a \<Longrightarrow> a \<noteq> NaN" "is_fin a \<Longrightarrow> \<not> is_inf a"
  "is_fin a \<Longrightarrow> a \<noteq> PInf" "is_fin a \<Longrightarrow> a \<noteq> NInf"
  by (cases a; simp)+

lemma round_d_small:
  assumes "\<bar>x\<bar> \<le> 131072"
  shows "is_fin (round_d s x)" and "dval (round_d s x) = rd x"
proof -
  have "\<bar>rd x\<bar> \<le> 131072" using assms by (rule rd_abs_le) simp
  then have "\<not> 2 ^ 1024 \<le> \<bar>rd x\<bar>" by simp
  then show "is_fin (round_d s x)" "dval (round_d s x) = rd x"
    by (simp_all add: round_d_def Let_def)
qed

lemma dneg_fin [simp]: "is_fin a \<Longrightarrow> is_fin (dneg a)" "is_fin a \<Longrightarrow> dval (dneg a) = - dval a"
  by (cases a; simp)+

lemma dadd_small:
  assumes "is_fin a" "is_fin b" "\<bar>dval a + dval b\<bar> \<le> 131072"
  shows "is_fin (dadd a b)" and "dval (dadd a b) = rd (dval a + dval b)"
  using assms round_d_small [of "dval a + dval b"] by (simp_all add: dadd_def Let_def)

lemma dsub_small:
  assumes "is_fin a" "is_fin b" "\<bar>dval a - dval b\<bar> \<le> 131072"
  shows "is_fin (dsub a b)" and "dval (dsub a b) = rd (dval a - dval b)"
  using assms dadd_small [of a "dneg b"] by (simp_all add: dsub_def)

lemma dmul_small:
  assumes "is_fin a" "is_fin b" "\<bar>dval a * dval b\<bar> \<le> 131072"
  shows "is_fin (dmul a b)" and "dval (dmul a b) = rd (dval a * dval b)"
  using assms round_d_small [of "dval a * dval b"] by (simp_all add: dmul_def)

lemma ddiv_small:
  assumes "is_fin a" "is_fin b" "dval b \<noteq> 0" "\<bar>dval a / dval b\<bar> \<le> 131072"
  shows "is_fin (ddiv a b)" and "dval (ddiv a b) = rd (dval a / dval b)"
  using assms round_d_small [of "dval a / dval b"] by (simp_all add: ddiv_def is_zero_def)

lemma dlt_fin: "is_fin a \<Longrightarrow> is_fin b \<Longrightarrow> dlt a b = (dval a < dval b)"
  by (simp add: dlt_def)

lemma dgt_fin: "is_fin a \<Longrightarrow> is_fin b \<Longrightarrow> dgt a b = (dval b < dval a)"
  by (simp add: dgt_def dlt_def)

lemma lit_small:
  "\<bar>q\<bar> \<le> 131072 \<Longrightarrow> is_fin (lit q)" "\<bar>q\<bar> \<le> 131072 \<Longrightarrow> dval (lit q) = rd q"
  by (simp_all add: lit_def round_d_small)

lemma d_of_int_fin [simp]: "is_fin (d_of_int k)" "dval (d_of_int k) = of_int k"
  by (simp_all add: d_of_int_def)

subsection \<open>The ramp computation on reals\<close>

lemma unit_dI: "is_fin x \<Longrightarrow> 0 \<le> dval x \<Longrightarrow> dval x \<le> 1 \<Longrightarrow> unit_d x"
  by (simp add: unit_d_def)

lemma unit_dD: "unit_d x \<Longrightarrow> is_fin x" "unit_d x \<Longrightarrow> 0 \<le> dval x" "unit_d x \<Longrightarrow> dval x \<le> 1"
  by (simp_all add: unit_d_def)

lemma index_value:
  assumes "i < 256"
  shows "unit_d (ddiv (d_of_int (int i)) (Fin 255))"
    and "dval (ddiv (d_of_int (int i)) (Fin 255)) = rd (real i / 255)"
proof -
  have b: "0 \<le> real i / 255" "real i / 255 \<le> 1" using assms by simp_all
  then have s: "\<bar>dval (d_of_int (int i)) / dval (Fin 255)\<bar> \<le> 131072" by simp
  have f: "is_fin (ddiv (d_of_int (int i)) (Fin 255))"
    by (rule ddiv_small(1)) (use s in simp_all)
  show v: "dval (ddiv (d_of_int (int i)) (Fin 255)) = rd (real i / 255)"
    using ddiv_small(2) [of "d_of_int (int i)" "Fin 255"] s by simp
  have "0 \<le> rd (real i / 255)" using b by (intro rd_nonneg)
  moreover have "rd (real i / 255) \<le> 1" using b by (intro rd_le) simp_all
  ultimately show "unit_d (ddiv (d_of_int (int i)) (Fin 255))" using f v by (simp add: unit_d_def)
qed

lemma start_value_unit:
  assumes "i < 256" "dne g (Fin 1) \<longrightarrow> pow_unit pw (ddiv (Fin 1) g)"
  shows "unit_d (start_value pw g i)"
  using assms index_value(1) [OF assms(1)] by (auto simp: start_value_def Let_def pow_unit_def)

lemma start_value_mono:
  assumes "i \<le> j" "j < 256" "dne g (Fin 1) \<longrightarrow> pow_unit pw (ddiv (Fin 1) g) \<and> pow_mono pw (ddiv (Fin 1) g)"
  shows "dval (start_value pw g i) \<le> dval (start_value pw g j)"
proof -
  have i: "i < 256" using assms by simp
  have "real i / 255 \<le> real j / 255" using assms(1) by (simp add: divide_right_mono)
  then have le: "dval (ddiv (d_of_int (int i)) (Fin 255)) \<le> dval (ddiv (d_of_int (int j)) (Fin 255))"
    by (simp add: index_value(2) i assms(2) rd_mono)
  show ?thesis
  proof (cases "dne g (Fin 1)")
    case True
    then have "pow_mono pw (ddiv (Fin 1) g)" using assms(3) by simp
    then show ?thesis
      using True le index_value(1) [OF i] index_value(1) [OF assms(2)]
      by (simp add: start_value_def Let_def pow_mono_def)
  next
    case False
    then show ?thesis using le by (simp add: start_value_def Let_def)
  qed
qed

lemma base_value_start:
  "base_value pw b c g i =
     (let value = start_value pw g i;
          value = dadd (dadd (dmul (dsub value (Fin (1/2))) (dmul c (Fin 2))) (Fin (1/2)))
                       (dsub b (Fin (1/2)));
          value = (if dlt value (Fin 0) then Fin 0 else value);
          value = (if dgt value (Fin 1) then Fin 1 else value)
      in value)"
  by (simp add: base_value_def start_value_def Let_def)

lemma base_value_real:
  assumes v: "unit_d (start_value pw g i)" and b: "unit_d b" and c: "unit_d c"
  shows "is_fin (base_value pw b c g i)"
    and "dval (base_value pw b c g i) = base_real (dval (start_value pw g i)) (dval c) (dval b)"
proof -
  define v0 where "v0 = start_value pw g i"
  note vb = unit_dD [OF v [folded v0_def]] and bb = unit_dD [OF b] and cb = unit_dD [OF c]
  define s where "s = dsub v0 (Fin (1/2))"
  have "\<bar>dval v0 - dval (Fin (1/2))\<bar> \<le> 131072" using vb(2,3) by simp
  then have s: "is_fin s" "dval s = rd (dval v0 - 1/2)"
    unfolding s_def using vb(1) dsub_small [of v0 "Fin (1/2)"] by simp_all
  have "\<bar>dval v0 - 1/2\<bar> \<le> 1/2" using vb(2,3) by linarith
  then have sb: "\<bar>dval s\<bar> \<le> 1/2" unfolding s(2) by (rule rd_abs_le) simp
  define c2 where "c2 = dmul c (Fin 2)"
  have "\<bar>dval c * dval (Fin 2)\<bar> \<le> 131072" using cb(2,3) by simp
  then have c2: "is_fin c2" "dval c2 = rd (dval c * 2)"
    unfolding c2_def using cb(1) dmul_small [of c "Fin 2"] by simp_all
  have c2b: "0 \<le> dval c2" "dval c2 \<le> 2"
  proof -
    show "0 \<le> dval c2" unfolding c2(2) by (rule rd_nonneg) (use cb in simp)
    show "dval c2 \<le> 2" unfolding c2(2) by (rule rd_le) (use cb in simp_all)
  qed
  define m where "m = dmul s c2"
  have "\<bar>dval s * dval c2\<bar> \<le> 1/2 * 2"
    unfolding abs_mult using sb c2b by (intro mult_mono) auto
  then have sm: "\<bar>dval s * dval c2\<bar> \<le> 1" by simp
  have "\<bar>dval s * dval c2\<bar> \<le> 131072" using sm by linarith
  then have m: "is_fin m" "dval m = rd (dval s * dval c2)"
    unfolding m_def using s(1) c2(1) dmul_small [of s c2] by simp_all
  have mb: "\<bar>dval m\<bar> \<le> 1" unfolding m(2) using sm by (rule rd_abs_le) simp
  define a where "a = dadd m (Fin (1/2))"
  have "\<bar>dval m + dval (Fin (1/2))\<bar> \<le> 131072" using mb by simp
  then have a: "is_fin a" "dval a = rd (dval m + 1/2)"
    unfolding a_def using m(1) dadd_small [of m "Fin (1/2)"] by simp_all
  have "\<bar>dval m + 1/2\<bar> \<le> 3/2" using mb by linarith
  then have ab: "\<bar>dval a\<bar> \<le> 3/2" unfolding a(2) by (rule rd_abs_le) simp
  define b5 where "b5 = dsub b (Fin (1/2))"
  have "\<bar>dval b - dval (Fin (1/2))\<bar> \<le> 131072" using bb(2,3) by simp
  then have b5: "is_fin b5" "dval b5 = rd (dval b - 1/2)"
    unfolding b5_def using bb(1) dsub_small [of b "Fin (1/2)"] by simp_all
  have "\<bar>dval b - 1/2\<bar> \<le> 1/2" using bb(2,3) by linarith
  then have b5b: "\<bar>dval b5\<bar> \<le> 1/2" unfolding b5(2) by (rule rd_abs_le) simp
  define w where "w = dadd a b5"
  have "\<bar>dval a + dval b5\<bar> \<le> 131072" using ab b5b by linarith
  then have w: "is_fin w" "dval w = rd (dval a + dval b5)"
    unfolding w_def using a(1) b5(1) dadd_small [of a b5] by simp_all
  define w1 where "w1 = (if dlt w (Fin 0) then Fin 0 else w)"
  have w1: "is_fin w1" "dval w1 = max 0 (dval w)"
    unfolding w1_def using w(1) by (simp_all add: dlt_fin max_def)
  define w2 where "w2 = (if dgt w1 (Fin 1) then Fin 1 else w1)"
  have w2: "is_fin w2" "dval w2 = min 1 (dval w1)"
    unfolding w2_def using w1(1) by (simp_all add: dgt_fin min_def)
  have eq: "base_value pw b c g i = w2"
    by (simp add: base_value_start Let_def w2_def w1_def w_def b5_def a_def m_def c2_def s_def v0_def)
  show "is_fin (base_value pw b c g i)" using eq w2(1) by simp
  show "dval (base_value pw b c g i) = base_real (dval (start_value pw g i)) (dval c) (dval b)"
    unfolding eq w2(2) w1(2) w(2) b5(2) a(2) m(2) c2(2) s(2) base_real_def v0_def ..
qed

lemma base_real_bounds: "0 \<le> base_real v c b" "base_real v c b \<le> 1"
  by (simp_all add: base_real_def)

lemma base_real_mono:
  assumes "v \<le> v'" "0 \<le> c"
  shows "base_real v c b \<le> base_real v' c b"
proof -
  have c2: "0 \<le> rd (c * 2)" using assms(2) by (intro rd_nonneg) simp
  have "rd (v - 1/2) \<le> rd (v' - 1/2)" using assms(1) by (intro rd_mono) simp
  then have "rd (v - 1/2) * rd (c * 2) \<le> rd (v' - 1/2) * rd (c * 2)"
    using c2 by (rule mult_right_mono)
  then have "rd (rd (v - 1/2) * rd (c * 2)) + 1/2 \<le> rd (rd (v' - 1/2) * rd (c * 2)) + 1/2"
    by (simp add: rd_mono)
  then have "rd (rd (rd (v - 1/2) * rd (c * 2)) + 1/2) + rd (b - 1/2)
           \<le> rd (rd (rd (v' - 1/2) * rd (c * 2)) + 1/2) + rd (b - 1/2)"
    by (simp add: rd_mono)
  then have "rd (rd (rd (rd (v - 1/2) * rd (c * 2)) + 1/2) + rd (b - 1/2))
           \<le> rd (rd (rd (rd (v' - 1/2) * rd (c * 2)) + 1/2) + rd (b - 1/2))"
    by (rule rd_mono)
  then show ?thesis unfolding base_real_def by (intro min.mono max.mono) auto
qed

lemma base_value_unit:
  assumes "unit_d (start_value pw g i)" "unit_d b" "unit_d c"
  shows "unit_d (base_value pw b c g i)"
  using base_value_real [OF assms] base_real_bounds by (simp add: unit_d_def)

lemma adj_real_bounds:
  assumes "- 100 \<le> t" "t \<le> 100"
  shows "7/8 \<le> adj_real t ch" "adj_real t ch \<le> 9/8"
proof -
  define tf where "tf = rd (of_int t / 100)"
  have "\<bar>real_of_int t / 100\<bar> \<le> 1" using assms by (simp add: abs_le_iff)
  then have tf: "\<bar>tf\<bar> \<le> 1" unfolding tf_def by (rule rd_abs_le) simp
  have p: "\<bar>rd (tf * l)\<bar> \<le> 1/8" if "0 \<le> l" "l \<le> 1/8" for l
  proof -
    have "\<bar>tf * l\<bar> \<le> 1 * (1/8)" unfolding abs_mult using tf that by (intro mult_mono) auto
    then have "\<bar>tf * l\<bar> \<le> 1/8" by simp
    then show ?thesis by (rule rd_abs_le) simp
  qed
  have l: "0 \<le> rd q" "rd q \<le> 1/8" if "0 \<le> q" "q \<le> 1/8" for q
  proof -
    show "0 \<le> rd q" using that(1) by (rule rd_nonneg)
    show "rd q \<le> 1/8" using that(2) by (rule rd_le) simp
  qed
  have l1: "0 \<le> rd (1/10)" "rd (1/10) \<le> 1/8" by (rule l; simp)+
  have l2: "0 \<le> rd (2/100)" "rd (2/100) \<le> 1/8" by (rule l; simp)+
  have up: "7/8 \<le> rd (1 + q)" "rd (1 + q) \<le> 9/8" "7/8 \<le> rd (1 - q)" "rd (1 - q) \<le> 9/8"
    if "\<bar>q\<bar> \<le> 1/8" for q
  proof -
    have q: "7/8 \<le> 1 + q" "1 + q \<le> 9/8" "7/8 \<le> 1 - q" "1 - q \<le> 9/8" using that by linarith+
    show "7/8 \<le> rd (1 + q)" using q(1) by (rule rd_ge) simp
    show "rd (1 + q) \<le> 9/8" using q(2) by (rule rd_le) simp
    show "7/8 \<le> rd (1 - q)" using q(3) by (rule rd_ge) simp
    show "rd (1 - q) \<le> 9/8" using q(4) by (rule rd_le) simp
  qed
  show "7/8 \<le> adj_real t ch" "adj_real t ch \<le> 9/8"
    using up [OF p [OF l1]] up [OF p [OF l2]]
    by (simp_all add: adj_real_def Let_def flip: tf_def)
qed

lemma temperature_adj_real:
  assumes "- 100 \<le> sint t" "sint t \<le> 100"
  shows "is_fin (temperature_adj t ch)" and "dval (temperature_adj t ch) = adj_real (sint t) ch"
proof -
  define k where "k = sint t"
  have k: "- 100 \<le> k" "k \<le> 100" using assms by (simp_all add: k_def)
  define tf where "tf = ddiv (d_of_int k) (Fin 100)"
  have k1: "\<bar>real_of_int k / 100\<bar> \<le> 1" using k by (simp add: abs_le_iff)
  then have "\<bar>dval (d_of_int k) / dval (Fin 100)\<bar> \<le> 131072" by simp
  then have tf: "is_fin tf" "dval tf = rd (of_int k / 100)"
    unfolding tf_def using ddiv_small [of "d_of_int k" "Fin 100"] by simp_all
  have tfb: "\<bar>dval tf\<bar> \<le> 1"
    unfolding tf(2) using k1 by (rule rd_abs_le) simp
  have l: "is_fin (lit q)" "dval (lit q) = rd q" "0 \<le> rd q" "rd q \<le> 1/8"
    if "0 \<le> q" "q \<le> 1/8" for q
  proof -
    show "is_fin (lit q)" "dval (lit q) = rd q" using that by (simp_all add: lit_small)
    show "0 \<le> rd q" using that(1) by (rule rd_nonneg)
    show "rd q \<le> 1/8" using that(2) by (rule rd_le) simp
  qed
  have prod: "is_fin (dmul tf (lit q))" "dval (dmul tf (lit q)) = rd (dval tf * rd q)"
    "\<bar>dval (dmul tf (lit q))\<bar> \<le> 1/8"
    if q: "0 \<le> q" "q \<le> 1/8" for q
  proof -
    have "\<bar>dval tf * rd q\<bar> \<le> 1 * (1/8)"
      unfolding abs_mult using tfb l(3,4) [OF q] by (intro mult_mono) auto
    then have s: "\<bar>dval tf * rd q\<bar> \<le> 1/8" by simp
    then have "\<bar>dval tf * dval (lit q)\<bar> \<le> 131072" using l(2) [OF q] by simp
    then show 1: "is_fin (dmul tf (lit q))" and 2: "dval (dmul tf (lit q)) = rd (dval tf * rd q)"
      using dmul_small [of tf "lit q"] tf(1) l(1,2) [OF q] by simp_all
    show "\<bar>dval (dmul tf (lit q))\<bar> \<le> 1/8" unfolding 2 using s by (rule rd_abs_le) simp
  qed
  have add: "is_fin (dadd (Fin 1) p)" "dval (dadd (Fin 1) p) = rd (1 + dval p)"
    "is_fin (dsub (Fin 1) p)" "dval (dsub (Fin 1) p) = rd (1 - dval p)"
    if "is_fin p" "\<bar>dval p\<bar> \<le> 1/8" for p
  proof -
    have "\<bar>dval (Fin 1) + dval p\<bar> \<le> 131072" "\<bar>dval (Fin 1) - dval p\<bar> \<le> 131072"
      using that(2) by simp_all
    then show "is_fin (dadd (Fin 1) p)" "dval (dadd (Fin 1) p) = rd (1 + dval p)"
      "is_fin (dsub (Fin 1) p)" "dval (dsub (Fin 1) p) = rd (1 - dval p)"
      using that(1) dadd_small [of "Fin 1" p] dsub_small [of "Fin 1" p] by simp_all
  qed
  have q1: "(0::real) \<le> 1/10" "(1::real)/10 \<le> 1/8" and q2: "(0::real) \<le> 2/100" "(2::real)/100 \<le> 1/8"
    by simp_all
  note r = add [OF prod(1,3) [OF q1]] add [OF prod(1,3) [OF q2]]
  show "is_fin (temperature_adj t ch)"
    using r by (simp add: temperature_adj_def Let_def flip: tf_def k_def)
  show "dval (temperature_adj t ch) = adj_real (sint t) ch"
    using r prod(2) [OF q1] prod(2) [OF q2] tf(2)
    by (simp add: temperature_adj_def adj_real_def Let_def flip: tf_def k_def)
qed

lemma scaled_real_mid:
  assumes "0 \<le> v" "0 \<le> a"
  shows "0 \<le> min 1 (rd (v * a))" "min 1 (rd (v * a)) \<le> 1"
    "0 \<le> rd (min 1 (rd (v * a)) * 65535)" "rd (min 1 (rd (v * a)) * 65535) \<le> 65535"
proof -
  show 1: "0 \<le> min 1 (rd (v * a))" using assms by (simp add: rd_nonneg)
  show 2: "min 1 (rd (v * a)) \<le> 1" by simp
  show "0 \<le> rd (min 1 (rd (v * a)) * 65535)" using 1 by (intro rd_nonneg) simp
  show "rd (min 1 (rd (v * a)) * 65535) \<le> 65535" using 2 by (intro rd_le) simp_all
qed

lemma scaled_real_bounds:
  assumes "0 \<le> v" "0 \<le> a"
  shows "1/2 \<le> scaled_real v a" "scaled_real v a \<le> 131071/2"
proof -
  note m = scaled_real_mid(3,4) [OF assms]
  have "1/2 \<le> rd (min 1 (rd (v * a)) * 65535) + 1/2" using m(1) by simp
  then show "1/2 \<le> scaled_real v a" unfolding scaled_real_def by (rule rd_ge) simp
  have "rd (min 1 (rd (v * a)) * 65535) + 1/2 \<le> 131071/2" using m(2) by simp
  then show "scaled_real v a \<le> 131071/2" unfolding scaled_real_def by (rule rd_le) simp
qed

lemma scaled_real_mono:
  assumes "v \<le> v'" "0 \<le> a"
  shows "scaled_real v a \<le> scaled_real v' a"
proof -
  have "rd (v * a) \<le> rd (v' * a)" using assms by (intro rd_mono mult_right_mono)
  then have "min 1 (rd (v * a)) * 65535 \<le> min 1 (rd (v' * a)) * 65535"
    by (intro mult_right_mono min.mono) auto
  then have "rd (min 1 (rd (v * a)) * 65535) + 1/2 \<le> rd (min 1 (rd (v' * a)) * 65535) + 1/2"
    by (simp add: rd_mono)
  then show ?thesis unfolding scaled_real_def by (rule rd_mono)
qed

lemma scaled_real_eq:
  assumes v: "unit_d v" and a: "is_fin a" "0 \<le> dval a" "dval a \<le> 2"
  shows "is_fin (scaled v a)" and "dval (scaled v a) = scaled_real (dval v) (dval a)"
proof -
  note vb = unit_dD [OF v]
  define r where "r = dmul v a"
  have "dval v * dval a \<le> 1 * 2" using vb a by (intro mult_mono) auto
  moreover have "0 \<le> dval v * dval a" using vb a by simp
  ultimately have ra: "\<bar>dval v * dval a\<bar> \<le> 131072" by simp
  have r: "is_fin r" "dval r = rd (dval v * dval a)"
    unfolding r_def using dmul_small [of v a] vb(1) a(1) ra by simp_all
  define r1 where "r1 = (if dgt r (Fin 1) then Fin 1 else r)"
  have r1: "is_fin r1" "dval r1 = min 1 (dval r)"
    unfolding r1_def using r(1) by (simp_all add: dgt_fin min_def)
  note mid = scaled_real_mid [OF vb(2) a(2)]
  define p where "p = dmul r1 (Fin 65535)"
  have "0 \<le> dval r1 * 65535" "dval r1 * 65535 \<le> 1 * 65535"
    unfolding r1(2) r(2) using mid(1,2) by (simp_all del: min_less_iff_conj)
  then have "\<bar>dval r1 * dval (Fin 65535)\<bar> \<le> 131072" by simp
  then have p: "is_fin p" "dval p = rd (dval r1 * 65535)"
    unfolding p_def using dmul_small [of r1 "Fin 65535"] r1(1) by simp_all
  have pb: "0 \<le> dval p" "dval p \<le> 65535" unfolding p(2) r1(2) r(2) using mid(3,4) by simp_all
  have "\<bar>dval p + dval (Fin (1/2))\<bar> \<le> 131072" using pb by simp
  then have q: "is_fin (dadd p (Fin (1/2)))" "dval (dadd p (Fin (1/2))) = rd (dval p + 1/2)"
    using dadd_small [of p "Fin (1/2)"] p(1) by simp_all
  have eq: "scaled v a = dadd p (Fin (1/2))"
    by (simp add: scaled_def Let_def p_def r1_def r_def)
  show "is_fin (scaled v a)" using eq q(1) by simp
  show "dval (scaled v a) = scaled_real (dval v) (dval a)"
    unfolding eq q(2) p(2) r1(2) r(2) scaled_real_def ..
qed

lemma to_WORD_floor:
  assumes "is_fin x" "0 \<le> dval x" "dval x < 65536"
  shows "uint (to_WORD x) = \<lfloor>dval x\<rfloor>"
proof -
  have f: "0 \<le> \<lfloor>dval x\<rfloor>" "\<lfloor>dval x\<rfloor> < 65536" using assms by (simp_all add: floor_less_iff)
  then have "to_WORD x = word_of_int \<lfloor>dval x\<rfloor>" using assms by (simp add: to_WORD_def trunc0_def)
  then have "uint (to_WORD x) = \<lfloor>dval x\<rfloor> mod 2 ^ 16" by (simp add: uint_word_of_int)
  then show ?thesis using f by simp
qed

lemma BuildGammaRamp_nth:
  assumes "wf_ramp ramp" "ch < 3" "i < 256"
  shows "BuildGammaRamp pw ramp b c g t ! ch ! i = to_WORD (sample_double pw b c g t ch i)"
proof -
  have "ch = 0 \<or> ch = 1 \<or> ch = 2" using assms(2) by auto
  then show ?thesis
    using assms(3)
    by (auto simp: BuildGammaRamp_closed [OF assms(1)] Let_def sample_double_def
        temperature_adj_def channel_def)
qed

section \<open>The samples: range and monotonicity\<close>

subsection \<open>The reference pow on the unit interval\<close>

lemma pow_ref_val:
  assumes x: "unit_d x" and y: "y \<noteq> NaN" "\<not> sign_bit y"
  shows "is_fin (pow_ref x y)"
    and "dval (pow_ref x y) =
           (if is_zero y then 1 else if y = PInf then (if dval x = 1 then 1 else 0)
            else rd (dval x powr dval y))"
    and "unit_d (pow_ref x y)"
proof -
  note xb = unit_dD [OF x]
  have *: "is_fin (pow_ref x y) \<and> dval (pow_ref x y) =
           (if is_zero y then 1 else if y = PInf then (if dval x = 1 then 1 else 0)
            else rd (dval x powr dval y)) \<and> unit_d (pow_ref x y)"
  proof (cases "is_zero y")
    case True
    then show ?thesis by (simp add: pow_ref_def unit_d_def)
  next
    case ny: False
    show ?thesis
    proof (cases "x = Fin 1")
      case True
      then show ?thesis using ny by (simp add: pow_ref_def unit_d_def)
    next
      case n1: False
      have lt1: "dval x < 1" using n1 xb by (cases x) auto
      show ?thesis
      proof (cases "is_zero x")
        case True
        then have "dval x = 0" by (simp add: is_zero_def)
        then show ?thesis
          using ny n1 True y xb(1)
          by (auto simp: pow_ref_def unit_d_def signed_zero_def)
      next
        case nz: False
        then have xpos: "0 < dval x" using xb by (simp add: is_zero_def)
        show ?thesis
        proof (cases "y = PInf")
          case True
          then show ?thesis
            using ny n1 nz xb lt1 xpos by (auto simp: pow_ref_def unit_d_def)
        next
          case False
          then have yf: "is_fin y" using y by (cases y) auto
          then have ypos: "0 < dval y" using ny y(2) by (cases y) (auto simp: is_zero_def)
          have p: "0 \<le> dval x powr dval y" "dval x powr dval y \<le> 1"
            using xpos lt1 ypos by (simp_all add: powr_le1)
          then have "\<bar>dval x powr dval y\<bar> \<le> 131072" by simp
          note r = round_d_small [OF this, of False]
          have rb: "0 \<le> rd (dval x powr dval y)" "rd (dval x powr dval y) \<le> 1"
          proof -
            show "0 \<le> rd (dval x powr dval y)" using p(1) by (rule rd_nonneg)
            show "rd (dval x powr dval y) \<le> 1" using p(2) by (rule rd_le) simp
          qed
          have "pow_ref x y = round_d False (dval x powr dval y)"
            using ny n1 nz yf xb(1) xpos by (simp add: pow_ref_def)
          then show ?thesis using r rb ny False by (simp add: unit_d_def)
        qed
      qed
    qed
  qed
  show "is_fin (pow_ref x y)"
    and "dval (pow_ref x y) =
           (if is_zero y then 1 else if y = PInf then (if dval x = 1 then 1 else 0)
            else rd (dval x powr dval y))"
    and "unit_d (pow_ref x y)"
    using * by blast+
qed

lemma pow_ref_unit: "y \<noteq> NaN \<Longrightarrow> \<not> sign_bit y \<Longrightarrow> pow_unit pow_ref y"
  by (simp add: pow_unit_def pow_ref_val(3))

lemma pow_ref_mono:
  assumes "y \<noteq> NaN" "\<not> sign_bit y"
  shows "pow_mono pow_ref y"
  unfolding pow_mono_def
proof (intro allI impI, elim conjE)
  fix x x' assume x: "unit_d x" "unit_d x'" and le: "dval x \<le> dval x'"
  note b = unit_dD [OF x(1)] and b' = unit_dD [OF x(2)]
  have zy: "0 \<le> dval y" using assms(2) by (cases y) auto
  have "dval x powr dval y \<le> dval x' powr dval y"
    using b(2) le zy by (intro powr_mono2) auto
  then have "rd (dval x powr dval y) \<le> rd (dval x' powr dval y)" by (rule rd_mono)
  then show "dval (pow_ref x y) \<le> dval (pow_ref x' y)"
    using le b'(3) by (auto simp: pow_ref_val(2) [OF x(1) assms] pow_ref_val(2) [OF x(2) assms])
qed

lemma reciprocal_exponent:
  assumes "dlt (Fin 0) g"
  shows "ddiv (Fin 1) g \<noteq> NaN" and "\<not> sign_bit (ddiv (Fin 1) g)"
proof -
  have "ddiv (Fin 1) g \<noteq> NaN \<and> \<not> sign_bit (ddiv (Fin 1) g)"
  proof (cases g)
    case (Fin r)
    then have r: "0 < r" using assms by (simp add: dlt_def)
    then have "0 \<le> rd (1 / r)" by (intro rd_nonneg) simp
    then show ?thesis
      using r Fin by (auto simp: ddiv_def is_zero_def round_d_def Let_def)
  qed (use assms in \<open>auto simp: dlt_def ddiv_def is_zero_def signed_zero_def\<close>)
  then show "ddiv (Fin 1) g \<noteq> NaN" and "\<not> sign_bit (ddiv (Fin 1) g)" by auto
qed

subsection \<open>Range and monotonicity of the samples\<close>

lemma sample_double_real:
  assumes "unit_d b" "unit_d c" "- 100 \<le> sint t" "sint t \<le> 100"
    and "dne g (Fin 1) \<longrightarrow> pow_unit pw (ddiv (Fin 1) g)" and "i < 256"
  shows "is_fin (sample_double pw b c g t ch i)"
    and "dval (sample_double pw b c g t ch i) =
           scaled_real (base_real (dval (start_value pw g i)) (dval c) (dval b))
             (adj_real (sint t) ch)"
proof -
  have sv: "unit_d (start_value pw g i)" using assms(6,5) by (rule start_value_unit)
  note bv = base_value_real [OF sv assms(1,2)]
  have bu: "unit_d (base_value pw b c g i)" using sv assms(1,2) by (rule base_value_unit)
  note ta = temperature_adj_real [OF assms(3,4), of ch]
  note ab = adj_real_bounds [OF assms(3,4), of ch]
  have a: "0 \<le> dval (temperature_adj t ch)" "dval (temperature_adj t ch) \<le> 2"
    using ta(2) ab by simp_all
  note s = scaled_real_eq [OF bu ta(1) a]
  show "is_fin (sample_double pw b c g t ch i)" using s(1) by (simp add: sample_double_def)
  show "dval (sample_double pw b c g t ch i) =
           scaled_real (base_real (dval (start_value pw g i)) (dval c) (dval b))
             (adj_real (sint t) ch)"
    using s(2) bv(2) ta(2) by (simp add: sample_double_def)
qed

text \<open>
  C8. For brightness and contrast in \<open>[0, 1]\<close>, gamma \<open>> 0\<close> and temperature in
  \<open>[-100, 100]\<close>, and a \<^verbatim>\<open>pow\<close> that maps bases in \<open>[0, 1]\<close> into \<open>[0, 1]\<close> for the
  exponent \<open>1/gamma\<close>: the double that is cast into \<^verbatim>\<open>ramp[ch][i]\<close> is finite and lies in
  \<open>[0, 65536)\<close>, so the cast does not wrap: the sample is the integral part of that
  double, and it is at most 65535.
\<close>

theorem BuildGammaRamp_samples_in_range:
  assumes "wf_ramp ramp" and "unit_d b" and "unit_d c" and "dlt (Fin 0) g"
    and "- 100 \<le> sint t" and "sint t \<le> 100"
    and "dne g (Fin 1) \<longrightarrow> pow_unit pw (ddiv (Fin 1) g)"
    and "ch < 3" and "i < 256"
  shows "is_fin (sample_double pw b c g t ch i) \<and>
         0 \<le> dval (sample_double pw b c g t ch i) \<and>
         dval (sample_double pw b c g t ch i) < 65536 \<and>
         uint (BuildGammaRamp pw ramp b c g t ! ch ! i) = \<lfloor>dval (sample_double pw b c g t ch i)\<rfloor> \<and>
         uint (BuildGammaRamp pw ramp b c g t ! ch ! i) \<le> 65535"
proof -
  note sd = sample_double_real [OF assms(2,3,5,6,7,9), of ch]
  have a: "0 \<le> adj_real (sint t) ch" using adj_real_bounds(1) [OF assms(5,6), of ch] by simp
  note sb = scaled_real_bounds [OF base_real_bounds(1) a]
  have lo: "0 \<le> dval (sample_double pw b c g t ch i)"
    and hi: "dval (sample_double pw b c g t ch i) \<le> 131071/2"
    unfolding sd(2) using sb [of "dval (start_value pw g i)" "dval c" "dval b"] by simp_all
  then have lt: "dval (sample_double pw b c g t ch i) < 65536" by simp
  have u: "uint (BuildGammaRamp pw ramp b c g t ! ch ! i) = \<lfloor>dval (sample_double pw b c g t ch i)\<rfloor>"
    unfolding BuildGammaRamp_nth [OF assms(1,8,9)] using sd(1) lo lt by (rule to_WORD_floor)
  have "\<lfloor>dval (sample_double pw b c g t ch i)\<rfloor> < 65536" using lt by (simp add: floor_less_iff)
  then show ?thesis using sd(1) lo lt u by simp
qed

text \<open>
  C3. For brightness and contrast in \<open>[0, 1]\<close>, gamma \<open>> 0\<close> and temperature in
  \<open>[-100, 100]\<close>, and a \<^verbatim>\<open>pow\<close> that, for the exponent \<open>1/gamma\<close>, maps bases in \<open>[0, 1]\<close>
  into \<open>[0, 1]\<close> and is monotone in the base: each channel of the table is
  non-decreasing in the sample index.
\<close>

theorem BuildGammaRamp_monotone:
  assumes "wf_ramp ramp" and "unit_d b" and "unit_d c" and "dlt (Fin 0) g"
    and "- 100 \<le> sint t" and "sint t \<le> 100"
    and "dne g (Fin 1) \<longrightarrow> pow_unit pw (ddiv (Fin 1) g) \<and> pow_mono pw (ddiv (Fin 1) g)"
    and "ch < 3" and "i \<le> j" and "j < 256"
  shows "BuildGammaRamp pw ramp b c g t ! ch ! i \<le> BuildGammaRamp pw ramp b c g t ! ch ! j"
proof -
  have i: "i < 256" using assms(9,10) by simp
  have pu: "dne g (Fin 1) \<longrightarrow> pow_unit pw (ddiv (Fin 1) g)" using assms(7) by simp
  note si = sample_double_real [OF assms(2,3,5,6) pu i, of ch]
  note sj = sample_double_real [OF assms(2,3,5,6) pu assms(10), of ch]
  have a: "0 \<le> adj_real (sint t) ch" using adj_real_bounds(1) [OF assms(5,6), of ch] by simp
  have c0: "0 \<le> dval c" using assms(3) by (rule unit_dD)
  have "dval (start_value pw g i) \<le> dval (start_value pw g j)"
    using assms(9,10,7) by (rule start_value_mono)
  then have "base_real (dval (start_value pw g i)) (dval c) (dval b)
           \<le> base_real (dval (start_value pw g j)) (dval c) (dval b)"
    using c0 by (rule base_real_mono)
  then have le: "dval (sample_double pw b c g t ch i) \<le> dval (sample_double pw b c g t ch j)"
    unfolding si(2) sj(2) using a by (rule scaled_real_mono)
  have ri: "0 \<le> dval (sample_double pw b c g t ch i)" "dval (sample_double pw b c g t ch i) < 65536"
    and rj: "0 \<le> dval (sample_double pw b c g t ch j)" "dval (sample_double pw b c g t ch j) < 65536"
    unfolding si(2) sj(2)
    using scaled_real_bounds [OF base_real_bounds(1) a, of "dval (start_value pw g i)" "dval c" "dval b"]
      scaled_real_bounds [OF base_real_bounds(1) a, of "dval (start_value pw g j)" "dval c" "dval b"]
    by simp_all
  have "uint (BuildGammaRamp pw ramp b c g t ! ch ! i) = \<lfloor>dval (sample_double pw b c g t ch i)\<rfloor>"
    unfolding BuildGammaRamp_nth [OF assms(1,8) i] using si(1) ri by (rule to_WORD_floor)
  moreover have "uint (BuildGammaRamp pw ramp b c g t ! ch ! j) = \<lfloor>dval (sample_double pw b c g t ch j)\<rfloor>"
    unfolding BuildGammaRamp_nth [OF assms(1,8,10)] using sj(1) rj by (rule to_WORD_floor)
  ultimately have "uint (BuildGammaRamp pw ramp b c g t ! ch ! i) \<le> uint (BuildGammaRamp pw ramp b c g t ! ch ! j)"
    using le by (simp add: floor_mono)
  then show ?thesis by (simp add: word_le_def)
qed

section \<open>Instances\<close>

lemma wf_zero_ramp: "wf_ramp zero_ramp"
  by (simp add: wf_ramp_def zero_ramp_def)

lemma lit_unit: assumes "0 \<le> q" "q \<le> 1" shows "unit_d (lit q)"
proof -
  have "\<bar>q\<bar> \<le> 131072" using assms by simp
  note l = lit_small [OF this]
  have "0 \<le> rd q" using assms(1) by (rule rd_nonneg)
  moreover have "rd q \<le> 1" using assms(2) by (rule rd_le) simp
  ultimately show ?thesis using l by (simp add: unit_d_def)
qed

lemma lit_above_one:
  assumes "9/8 \<le> q" "q \<le> 131072"
  shows "dlt (Fin 0) (lit q)" and "dne (lit q) (Fin 1)"
proof -
  have "\<bar>q\<bar> \<le> 131072" using assms by simp
  note l = lit_small [OF this]
  have "9/8 \<le> rd q" using assms(1) by (rule rd_ge) simp
  then show "dlt (Fin 0) (lit q)" and "dne (lit q) (Fin 1)"
    using l by (simp_all add: dlt_def dne_def)
qed

theorem HasDefaultGammaRamp_spec_witness:
  "example_GetDeviceGammaRamp 0 = None \<and>
   HasDefaultGammaRamp pow_ref example_GetDeviceGammaRamp zero_ramp 0 \<and>
   example_GetDeviceGammaRamp 1 = Some zero_ramp \<and>
   HasDefaultGammaRamp pow_ref example_GetDeviceGammaRamp zero_ramp 1 =
     (\<forall>c<3. \<forall>i<256.
        \<bar>uint (zero_ramp ! c ! i) -
         uint (BuildGammaRamp pow_ref zero_ramp (Fin (1/2)) (Fin (1/2)) (Fin 1) 0 ! c ! i)\<bar> \<le> 256)"
proof -
  have h0: "example_GetDeviceGammaRamp 0 = None"
    and h1: "example_GetDeviceGammaRamp 1 = Some zero_ramp"
    by (simp_all add: example_GetDeviceGammaRamp_def)
  note a = HasDefaultGammaRamp_spec [of example_GetDeviceGammaRamp 0 pow_ref zero_ramp,
      THEN conjunct1, rule_format, OF h0]
  note b = HasDefaultGammaRamp_spec [of example_GetDeviceGammaRamp 1 pow_ref zero_ramp,
      THEN conjunct2, rule_format, OF h1]
  show ?thesis using h0 a h1 b by (intro conjI)
qed

theorem BuildGammaRamp_samples_in_range_witness:
  "wf_ramp zero_ramp \<and> unit_d (lit (60/100)) \<and> unit_d (lit (65/100)) \<and>
   dlt (Fin 0) (lit (143/100)) \<and> - 100 \<le> sint (0 :: 32 word) \<and> sint (0 :: 32 word) \<le> 100 \<and>
   dne (lit (143/100)) (Fin 1) \<and> pow_unit pow_ref (ddiv (Fin 1) (lit (143/100))) \<and>
   (0::nat) < 3 \<and> (128::nat) < 256 \<and>
   is_fin (sample_double pow_ref (lit (60/100)) (lit (65/100)) (lit (143/100)) 0 0 128) \<and>
   0 \<le> dval (sample_double pow_ref (lit (60/100)) (lit (65/100)) (lit (143/100)) 0 0 128) \<and>
   dval (sample_double pow_ref (lit (60/100)) (lit (65/100)) (lit (143/100)) 0 0 128) < 65536 \<and>
   uint (BuildGammaRamp pow_ref zero_ramp (lit (60/100)) (lit (65/100)) (lit (143/100)) 0 ! 0 ! 128)
     = \<lfloor>dval (sample_double pow_ref (lit (60/100)) (lit (65/100)) (lit (143/100)) 0 0 128)\<rfloor> \<and>
   uint (BuildGammaRamp pow_ref zero_ramp (lit (60/100)) (lit (65/100)) (lit (143/100)) 0 ! 0 ! 128)
     \<le> 65535"
proof -
  have b: "unit_d (lit (60/100))" and c: "unit_d (lit (65/100))" by (rule lit_unit; simp)+
  have g: "dlt (Fin 0) (lit (143/100))" and g1: "dne (lit (143/100)) (Fin 1)"
    by (rule lit_above_one; simp)+
  have t: "- 100 \<le> sint (0 :: 32 word)" "sint (0 :: 32 word) \<le> 100" by simp_all
  have p: "pow_unit pow_ref (ddiv (Fin 1) (lit (143/100)))"
    using reciprocal_exponent [OF g] by (rule pow_ref_unit)
  have i: "(0::nat) < 3" "(128::nat) < 256" by simp_all
  have p': "dne (lit (143/100)) (Fin 1) \<longrightarrow> pow_unit pow_ref (ddiv (Fin 1) (lit (143/100)))"
    using p by simp
  note r = BuildGammaRamp_samples_in_range [OF wf_zero_ramp b c g t p' i]
  show ?thesis using wf_zero_ramp b c g t g1 p i r by (intro conjI) blast+
qed

theorem BuildGammaRamp_monotone_witness:
  "wf_ramp zero_ramp \<and> unit_d (lit (60/100)) \<and> unit_d (lit (65/100)) \<and>
   dlt (Fin 0) (lit (143/100)) \<and> - 100 \<le> sint (40 :: 32 word) \<and> sint (40 :: 32 word) \<le> 100 \<and>
   dne (lit (143/100)) (Fin 1) \<and> pow_unit pow_ref (ddiv (Fin 1) (lit (143/100))) \<and>
   pow_mono pow_ref (ddiv (Fin 1) (lit (143/100))) \<and>
   (2::nat) < 3 \<and> (100::nat) \<le> 200 \<and> (200::nat) < 256 \<and>
   BuildGammaRamp pow_ref zero_ramp (lit (60/100)) (lit (65/100)) (lit (143/100)) 40 ! 2 ! 100
     \<le> BuildGammaRamp pow_ref zero_ramp (lit (60/100)) (lit (65/100)) (lit (143/100)) 40 ! 2 ! 200"
proof -
  have b: "unit_d (lit (60/100))" and c: "unit_d (lit (65/100))" by (rule lit_unit; simp)+
  have g: "dlt (Fin 0) (lit (143/100))" and g1: "dne (lit (143/100)) (Fin 1)"
    by (rule lit_above_one; simp)+
  have t: "- 100 \<le> sint (40 :: 32 word)" "sint (40 :: 32 word) \<le> 100" by simp_all
  have p: "pow_unit pow_ref (ddiv (Fin 1) (lit (143/100)))"
    using reciprocal_exponent [OF g] by (rule pow_ref_unit)
  have m: "pow_mono pow_ref (ddiv (Fin 1) (lit (143/100)))"
    using reciprocal_exponent [OF g] by (rule pow_ref_mono)
  have i: "(2::nat) < 3" "(100::nat) \<le> 200" "(200::nat) < 256" by simp_all
  have p': "dne (lit (143/100)) (Fin 1) \<longrightarrow>
      pow_unit pow_ref (ddiv (Fin 1) (lit (143/100))) \<and> pow_mono pow_ref (ddiv (Fin 1) (lit (143/100)))"
    using p m by simp
  note r = BuildGammaRamp_monotone [OF wf_zero_ramp b c g t p' i]
  show ?thesis using wf_zero_ramp b c g t g1 p m i r by (intro conjI)
qed

section \<open>The identity ramp\<close>

subsection \<open>The neutral ramp\<close>

lemma rd_err_unit: "\<bar>x\<bar> \<le> 1 \<Longrightarrow> \<bar>rd x - x\<bar> \<le> 2 powi (- 54)"
  using rd_err_below [of x 0] by simp

lemma rd_err_word: "\<bar>x\<bar> \<le> 65536 \<Longrightarrow> \<bar>rd x - x\<bar> \<le> 2 powi (- 38)"
  using rd_err_below [of x 16] by simp

lemma adj_real_0 [simp]: "adj_real 0 ch = 1"
  by (simp add: adj_real_def)

lemma neutral_scaled:
  assumes x: "0 \<le> x" "x \<le> 1"
  shows "\<bar>scaled_real (base_real (rd x) (1/2) (1/2)) 1 - (x * 65535 + 1/2)\<bar> \<le> 1/4"
proof -
  define e :: real where "e = 2 powi (- 54)"
  define h :: real where "h = 2 powi (- 38)"
  have num: "65535 * (6 * e) + 2 * h \<le> 1/4" "0 \<le> e"
    by (simp_all add: e_def h_def power_int_minus)
  note eu = rd_err_unit [folded e_def] and eh = rd_err_word [folded h_def]
  define v0 where "v0 = rd x"
  have v0: "\<bar>v0 - x\<bar> \<le> e" unfolding v0_def using x by (intro eu) simp
  have v0b: "0 \<le> v0" "v0 \<le> 1"
    unfolding v0_def using x by (auto intro: rd_nonneg rd_le)
  define s where "s = rd (v0 - 1/2)"
  have s: "\<bar>s - (v0 - 1/2)\<bar> \<le> e" unfolding s_def using v0b by (intro eu) linarith
  have "\<bar>v0 - 1/2\<bar> \<le> 1/2" using v0b by linarith
  then have sb: "\<bar>s\<bar> \<le> 1/2" unfolding s_def by (rule rd_abs_le) simp
  define m where "m = rd (s * rd (1/2 * 2))"
  have m_eq: "m = rd s" by (simp add: m_def)
  have m: "\<bar>m - s\<bar> \<le> e" unfolding m_eq using sb by (intro eu) linarith
  have mb: "\<bar>m\<bar> \<le> 1/2" unfolding m_eq using sb by (rule rd_abs_le) simp
  define a where "a = rd (m + 1/2)"
  have a: "\<bar>a - (m + 1/2)\<bar> \<le> e" unfolding a_def using mb by (intro eu) linarith
  have "\<bar>m + 1/2\<bar> \<le> 1" using mb by linarith
  then have ab: "\<bar>a\<bar> \<le> 1" unfolding a_def by (rule rd_abs_le) simp
  define w where "w = rd (a + rd (1/2 - 1/2))"
  have w_eq: "w = rd a" by (simp add: w_def)
  have w: "\<bar>w - a\<bar> \<le> e" unfolding w_eq using ab by (intro eu)
  define B where "B = min 1 (max 0 w)"
  have B_eq: "base_real (rd x) (1/2) (1/2) = B"
    by (simp add: base_real_def B_def w_def a_def m_def s_def v0_def)
  have wx: "\<bar>w - x\<bar> \<le> 5 * e" using v0 s m a w by linarith
  have Bb: "0 \<le> B" "B \<le> 1" by (simp_all add: B_def)
  have Bx: "\<bar>B - x\<bar> \<le> 5 * e" using wx x unfolding B_def by (auto simp: min_def max_def)
  define r where "r = rd (B * 1)"
  have r: "\<bar>r - B\<bar> \<le> e" unfolding r_def using Bb by (simp add: eu)
  have rb: "0 \<le> r" unfolding r_def using Bb by (intro rd_nonneg) simp
  define r' where "r' = min 1 r"
  have r'b: "0 \<le> r'" "r' \<le> 1" using rb by (simp_all add: r'_def)
  have r'x: "\<bar>r' - x\<bar> \<le> 6 * e" using r Bx x unfolding r'_def by (auto simp: min_def)
  define p where "p = rd (r' * 65535)"
  have p: "\<bar>p - r' * 65535\<bar> \<le> h" unfolding p_def using r'b by (intro eh) (simp add: abs_le_iff)
  have pb: "0 \<le> p" "p \<le> 65535"
  proof -
    show "0 \<le> p" unfolding p_def using r'b by (intro rd_nonneg) simp
    have "r' * 65535 \<le> 65535" using r'b by simp
    then show "p \<le> 65535" unfolding p_def by (rule rd_le) simp
  qed
  define q where "q = rd (p + 1/2)"
  have q: "\<bar>q - (p + 1/2)\<bar> \<le> h" unfolding q_def using pb by (intro eh) (simp add: abs_le_iff)
  have q_eq: "scaled_real B 1 = q"
    by (simp add: scaled_real_def q_def p_def r'_def r_def)
  have "\<bar>q - (x * 65535 + 1/2)\<bar> \<le> 65535 * (6 * e) + 2 * h" using p q r'x by linarith
  also have "\<dots> \<le> 1/4" using num by linarith
  finally show ?thesis unfolding B_eq q_eq .
qed

lemma neutral_start_value:
  assumes "i < 256"
  shows "unit_d (start_value pw (Fin 1) i)" and "dval (start_value pw (Fin 1) i) = rd (real i / 255)"
  using index_value [OF assms] by (simp_all add: start_value_def Let_def dne_def)

lemma neutral_sample:
  assumes "wf_ramp ramp" "ch < 3" "i < 256"
  shows "uint (BuildGammaRamp pw ramp (Fin (1/2)) (Fin (1/2)) (Fin 1) 0 ! ch ! i) = 257 * int i"
proof -
  let ?sd = "sample_double pw (Fin (1/2)) (Fin (1/2)) (Fin 1) 0 ch i"
  have u: "unit_d (Fin (1/2))" by (simp add: unit_d_def)
  have t: "- 100 \<le> sint (0 :: 32 word)" "sint (0 :: 32 word) \<le> 100" by simp_all
  have pu: "dne (Fin 1) (Fin 1) \<longrightarrow> pow_unit pw (ddiv (Fin 1) (Fin 1))" by (simp add: dne_def)
  note sd = sample_double_real [OF u u t pu assms(3), of ch]
  have x: "0 \<le> real i / 255" "real i / 255 \<le> 1" using assms(3) by simp_all
  have "dval ?sd = scaled_real (base_real (rd (real i / 255)) (1/2) (1/2)) 1"
    using sd(2) by (simp add: neutral_start_value(2) [OF assms(3)])
  then have near: "\<bar>dval ?sd - (real i / 255 * 65535 + 1/2)\<bar> \<le> 1/4"
    using neutral_scaled [OF x] by simp
  have e: "real i / 255 * 65535 = of_int (257 * int i)" by simp
  have fl: "\<lfloor>dval ?sd\<rfloor> = 257 * int i"
    using near unfolding e by (intro floor_unique) linarith+
  have "0 \<le> dval ?sd" "dval ?sd < 65536" using near x by linarith+
  then have "uint (to_WORD ?sd) = \<lfloor>dval ?sd\<rfloor>" using sd(1) by (intro to_WORD_floor)
  then show ?thesis unfolding BuildGammaRamp_nth [OF assms] fl .
qed

text \<open>
  C2. For the neutral parameters (brightness 0.5, contrast 0.5, gamma 1.0, temperature 0)
  the table is the identity ramp: on every channel, sample \<open>i\<close> is
  \<open>round(i/255*65535)\<close>, rounded half up, which is \<open>257 * i\<close>. With gamma 1.0 \<^verbatim>\<open>pow\<close> is
  not called, so the result holds for every \<open>pw\<close>.
\<close>

theorem BuildGammaRamp_neutral_identity:
  assumes "wf_ramp ramp" and "ch < 3" and "i < 256"
  shows "uint (BuildGammaRamp pw ramp (Fin (1/2)) (Fin (1/2)) (Fin 1) 0 ! ch ! i)
           = \<lfloor>real i / 255 * 65535 + 1/2\<rfloor>"
proof -
  have "real i / 255 * 65535 + 1/2 = of_int (257 * int i) + 1/2" by simp
  then have "\<lfloor>real i / 255 * 65535 + 1/2\<rfloor> = 257 * int i"
    by (simp only:) (rule floor_unique; simp)
  then show ?thesis using neutral_sample [OF assms] by simp
qed

theorem BuildGammaRamp_neutral_identity_witness:
  "wf_ramp zero_ramp \<and> (1::nat) < 3 \<and> (128::nat) < 256 \<and>
   uint (BuildGammaRamp pow_ref zero_ramp (Fin (1/2)) (Fin (1/2)) (Fin 1) 0 ! 1 ! 128)
     = \<lfloor>real 128 / 255 * 65535 + 1/2\<rfloor>"
proof -
  have i: "(1::nat) < 3" "(128::nat) < 256" by simp_all
  note r = BuildGammaRamp_neutral_identity [OF wf_zero_ramp i, of pow_ref]
  show ?thesis using wf_zero_ramp i r by (intro conjI)
qed

section \<open>The built-in configuration at index 128\<close>

subsection \<open>Bounds on a real power\<close>

lemma pow_ub_step:
  fixes x :: real
  assumes "x ^ k \<le> a" "x ^ m \<le> b" and "0 \<le> x" and "a * b \<le> c"
  shows "x ^ (k + m) \<le> c"
proof -
  have "0 \<le> x ^ k" "0 \<le> x ^ m" using assms(3) by simp_all
  then have "x ^ k * x ^ m \<le> a * b" using assms(1,2) by (intro mult_mono) auto
  then show ?thesis using assms(4) by (simp add: power_add)
qed

lemma pow_lb_step:
  fixes x :: real
  assumes "a \<le> x ^ k" "b \<le> x ^ m" and "0 \<le> a" "0 \<le> b" and "c \<le> a * b"
  shows "c \<le> x ^ (k + m)"
proof -
  have "a * b \<le> x ^ k * x ^ m" using assms(1-4) by (intro mult_mono) auto
  then show ?thesis using assms(5) by (simp add: power_add)
qed

lemma power_upper_certificate: "((50196079 / 10 ^ 8)::real) ^ 100 \<le> (61755861 / 10 ^ 8) ^ 143"
proof -
  define x :: real where "x = 50196079 / 10 ^ 8"
  define y :: real where "y = 61755861 / 10 ^ 8"
  have x0: "0 \<le> x" by (simp add: x_def)
  have a1: "x ^ 1 \<le> 5019607900000000 / 10 ^ 16" by (simp add: x_def)
  have a2: "x ^ 2 \<le> 2519646346974241 / 10 ^ 16"
    using pow_ub_step [OF a1 a1 x0, of "2519646346974241 / 10 ^ 16"] by (simp add: power2_eq_square)
  have a4: "x ^ 4 \<le> 6348617713820638 / 10 ^ 17"
    using pow_ub_step [OF a2 a2 x0, of "6348617713820638 / 10 ^ 17"] by (simp add: power2_eq_square)
  have a8: "x ^ 8 \<le> 4030494687623719 / 10 ^ 18"
    using pow_ub_step [OF a4 a4 x0, of "4030494687623719 / 10 ^ 18"] by (simp add: power2_eq_square)
  have a16: "x ^ 16 \<le> 1624488742696303 / 10 ^ 20"
    using pow_ub_step [OF a8 a8 x0, of "1624488742696303 / 10 ^ 20"] by (simp add: power2_eq_square)
  have a32: "x ^ 32 \<le> 2638963675147016 / 10 ^ 25"
    using pow_ub_step [OF a16 a16 x0, of "2638963675147016 / 10 ^ 25"] by (simp add: power2_eq_square)
  have a64: "x ^ 64 \<le> 6964129278745446 / 10 ^ 35"
    using pow_ub_step [OF a32 a32 x0, of "6964129278745446 / 10 ^ 35"] by (simp add: power2_eq_square)
  have a96: "x ^ 96 \<le> 1837808419563702 / 10 ^ 44"
    using pow_ub_step [OF a64 a32 x0, of "1837808419563702 / 10 ^ 44"] by (simp add: power2_eq_square)
  have a100: "x ^ 100 \<le> 1166754308705083 / 10 ^ 45"
    using pow_ub_step [OF a96 a4 x0, of "1166754308705083 / 10 ^ 45"] by (simp add: power2_eq_square)
  have b1: "6175586100000000 / 10 ^ 16 \<le> y ^ 1" by (simp add: y_def)
  have b2: "3813786367851321 / 10 ^ 16 \<le> y ^ 2"
    using pow_lb_step [OF b1 b1, of "3813786367851321 / 10 ^ 16"] by (simp add: power2_eq_square)
  have b4: "1454496645960857 / 10 ^ 16 \<le> y ^ 4"
    using pow_lb_step [OF b2 b2, of "1454496645960857 / 10 ^ 16"] by (simp add: power2_eq_square)
  have b8: "2115560493111382 / 10 ^ 17 \<le> y ^ 8"
    using pow_lb_step [OF b4 b4, of "2115560493111382 / 10 ^ 17"] by (simp add: power2_eq_square)
  have b16: "4475596200013673 / 10 ^ 19 \<le> y ^ 16"
    using pow_lb_step [OF b8 b8, of "4475596200013673 / 10 ^ 19"] by (simp add: power2_eq_square)
  have b32: "2003096134557682 / 10 ^ 22 \<le> y ^ 32"
    using pow_lb_step [OF b16 b16, of "2003096134557682 / 10 ^ 22"] by (simp add: power2_eq_square)
  have b64: "4012394124279927 / 10 ^ 29 \<le> y ^ 64"
    using pow_lb_step [OF b32 b32, of "4012394124279927 / 10 ^ 29"] by (simp add: power2_eq_square)
  have b128: "1609930660855608 / 10 ^ 42 \<le> y ^ 128"
    using pow_lb_step [OF b64 b64, of "1609930660855608 / 10 ^ 42"] by (simp add: power2_eq_square)
  have b136: "3405905702754823 / 10 ^ 44 \<le> y ^ 136"
    using pow_lb_step [OF b128 b8, of "3405905702754823 / 10 ^ 44"] by (simp add: power2_eq_square)
  have b140: "4953878421115845 / 10 ^ 45 \<le> y ^ 140"
    using pow_lb_step [OF b136 b4, of "4953878421115845 / 10 ^ 45"] by (simp add: power2_eq_square)
  have b142: "1889303399044443 / 10 ^ 45 \<le> y ^ 142"
    using pow_lb_step [OF b140 b2, of "1889303399044443 / 10 ^ 45"] by (simp add: power2_eq_square)
  have b143: "1166755580982161 / 10 ^ 45 \<le> y ^ 143"
    using pow_lb_step [OF b142 b1, of "1166755580982161 / 10 ^ 45"] by (simp add: power2_eq_square)
  have "x ^ 100 \<le> y ^ 143" using a100 b143 by simp
  then show ?thesis by (simp only: x_def y_def)
qed

lemma power_lower_certificate: "((61755859 / 10 ^ 8)::real) ^ 143 \<le> (50196078 / 10 ^ 8) ^ 100"
proof -
  define x :: real where "x = 61755859 / 10 ^ 8"
  define y :: real where "y = 50196078 / 10 ^ 8"
  have x0: "0 \<le> x" by (simp add: x_def)
  have a1: "x ^ 1 \<le> 6175585900000000 / 10 ^ 16" by (simp add: x_def)
  have a2: "x ^ 2 \<le> 3813786120827881 / 10 ^ 16"
    using pow_ub_step [OF a1 a1 x0, of "3813786120827881 / 10 ^ 16"] by (simp add: power2_eq_square)
  have a4: "x ^ 4 \<le> 1454496457541938 / 10 ^ 16"
    using pow_ub_step [OF a2 a2 x0, of "1454496457541938 / 10 ^ 16"] by (simp add: power2_eq_square)
  have a8: "x ^ 8 \<le> 2115559945002047 / 10 ^ 17"
    using pow_ub_step [OF a4 a4 x0, of "2115559945002047 / 10 ^ 17"] by (simp add: power2_eq_square)
  have a16: "x ^ 16 \<le> 4475593880897065 / 10 ^ 19"
    using pow_ub_step [OF a8 a8 x0, of "4475593880897065 / 10 ^ 19"] by (simp add: power2_eq_square)
  have a32: "x ^ 32 \<le> 2003094058672326 / 10 ^ 22"
    using pow_ub_step [OF a16 a16 x0, of "2003094058672326 / 10 ^ 22"] by (simp add: power2_eq_square)
  have a64: "x ^ 64 \<le> 4012385807888372 / 10 ^ 29"
    using pow_ub_step [OF a32 a32 x0, of "4012385807888372 / 10 ^ 29"] by (simp add: power2_eq_square)
  have a128: "x ^ 128 \<le> 1609923987134403 / 10 ^ 42"
    using pow_ub_step [OF a64 a64 x0, of "1609923987134403 / 10 ^ 42"] by (simp add: power2_eq_square)
  have a136: "x ^ 136 \<le> 3405890701679534 / 10 ^ 44"
    using pow_ub_step [OF a128 a8 x0, of "3405890701679534 / 10 ^ 44"] by (simp add: power2_eq_square)
  have a140: "x ^ 140 \<le> 4953855960367908 / 10 ^ 45"
    using pow_ub_step [OF a136 a4 x0, of "4953855960367908 / 10 ^ 45"] by (simp add: power2_eq_square)
  have a142: "x ^ 142 \<le> 1889294710623161 / 10 ^ 45"
    using pow_ub_step [OF a140 a2 x0, of "1889294710623161 / 10 ^ 45"] by (simp add: power2_eq_square)
  have a143: "x ^ 143 \<le> 1166750177586898 / 10 ^ 45"
    using pow_ub_step [OF a142 a1 x0, of "1166750177586898 / 10 ^ 45"] by (simp add: power2_eq_square)
  have b1: "5019607800000000 / 10 ^ 16 \<le> y ^ 1" by (simp add: y_def)
  have b2: "2519646246582084 / 10 ^ 16 \<le> y ^ 2"
    using pow_lb_step [OF b1 b1, of "2519646246582084 / 10 ^ 16"] by (simp add: power2_eq_square)
  have b4: "6348617207915184 / 10 ^ 17 \<le> y ^ 4"
    using pow_lb_step [OF b2 b2, of "6348617207915184 / 10 ^ 17"] by (simp add: power2_eq_square)
  have b8: "4030494045263678 / 10 ^ 18 \<le> y ^ 8"
    using pow_lb_step [OF b4 b4, of "4030494045263678 / 10 ^ 18"] by (simp add: power2_eq_square)
  have b16: "1624488224890596 / 10 ^ 20 \<le> y ^ 16"
    using pow_lb_step [OF b8 b8, of "1624488224890596 / 10 ^ 20"] by (simp add: power2_eq_square)
  have b32: "2638961992808199 / 10 ^ 25 \<le> y ^ 32"
    using pow_lb_step [OF b16 b16, of "2638961992808199 / 10 ^ 25"] by (simp add: power2_eq_square)
  have b64: "6964120399486220 / 10 ^ 35 \<le> y ^ 64"
    using pow_lb_step [OF b32 b32, of "6964120399486220 / 10 ^ 35"] by (simp add: power2_eq_square)
  have b96: "1837804904758438 / 10 ^ 44 \<le> y ^ 96"
    using pow_lb_step [OF b64 b32, of "1837804904758438 / 10 ^ 44"] by (simp add: power2_eq_square)
  have b100: "1166751984314034 / 10 ^ 45 \<le> y ^ 100"
    using pow_lb_step [OF b96 b4, of "1166751984314034 / 10 ^ 45"] by (simp add: power2_eq_square)
  have "x ^ 143 \<le> y ^ 100" using a143 b100 by simp
  then show ?thesis by (simp only: x_def y_def)
qed

lemma root_upper:
  fixes x u :: real
  assumes "0 < x" "0 < u" "x ^ p \<le> u ^ q" "0 < q"
  shows "x powr (real p / real q) \<le> u"
proof -
  have "x powr (real p / real q) = (x powr real p) powr (1 / real q)"
    by (simp add: powr_powr)
  also have "\<dots> = (x ^ p) powr (1 / real q)" using assms(1) by (simp add: powr_realpow)
  also have "\<dots> \<le> (u ^ q) powr (1 / real q)"
    using assms by (intro powr_mono2) auto
  also have "\<dots> = (u powr real q) powr (1 / real q)" using assms(2) by (simp add: powr_realpow)
  also have "\<dots> = u" using assms(2,4) by (simp add: powr_powr)
  finally show ?thesis .
qed

lemma root_lower:
  fixes x l :: real
  assumes "0 < x" "0 < l" "l ^ q \<le> x ^ p" "0 < q"
  shows "l \<le> x powr (real p / real q)"
proof -
  have "l = (l powr real q) powr (1 / real q)" using assms(2,4) by (simp add: powr_powr)
  also have "\<dots> = (l ^ q) powr (1 / real q)" using assms(2) by (simp add: powr_realpow)
  also have "\<dots> \<le> (x ^ p) powr (1 / real q)"
    using assms by (intro powr_mono2) auto
  also have "\<dots> = (x powr real p) powr (1 / real q)" using assms(1) by (simp add: powr_realpow)
  also have "\<dots> = x powr (real p / real q)" by (simp add: powr_powr)
  finally show ?thesis .
qed

lemma powr_small_exponent:
  fixes x h :: real
  assumes x: "1/2 \<le> x" "x \<le> 1" and h: "0 \<le> h" "h \<le> 1"
  shows "x powr (- h) \<le> 1 + 2 * h" and "1 - h \<le> x powr h"
proof -
  have x0: "0 < x" using x by simp
  have "exp (- 1) \<le> (1/2 :: real)"
    using exp_ge_add_one_self [of "1::real"] by (simp add: exp_minus field_simps)
  then have "exp (- 1) \<le> x" using x by linarith
  then have l: "- 1 \<le> ln x" using x0 by (simp add: ln_ge_iff)
  have l0: "ln x \<le> 0" using x x0 by simp
  have "h * (- 1) \<le> h * ln x" using l h(1) by (rule mult_left_mono)
  then have "- h * ln x \<le> h" by simp
  then have "x powr (- h) \<le> exp h" using x0 by (simp add: powr_def)
  also have "\<dots> \<le> 1 + h + h\<^sup>2" using h by (intro exp_bound)
  also have "\<dots> \<le> 1 + 2 * h" using h by (simp add: power2_eq_square mult_left_le)
  finally show "x powr (- h) \<le> 1 + 2 * h" .
  have "- h \<le> h * ln x" using \<open>h * (- 1) \<le> h * ln x\<close> by simp
  then have "exp (- h) \<le> x powr h" using x0 by (simp add: powr_def)
  moreover have "1 + (- h) \<le> exp (- h)" by (rule exp_ge_add_one_self)
  ultimately show "1 - h \<le> x powr h" by linarith
qed

lemma powr_window:
  fixes x y :: real
  assumes x: "50196078 / 10 ^ 8 \<le> x" "x \<le> 50196079 / 10 ^ 8"
    and y: "100/143 - 2 / 10 ^ 15 \<le> y" "y \<le> 100/143 + 2 / 10 ^ 15"
  shows "61755858 / 10 ^ 8 \<le> x powr y" and "x powr y \<le> 61755862 / 10 ^ 8"
proof -
  define xm :: real where "xm = 50196078 / 10 ^ 8"
  define xp :: real where "xp = 50196079 / 10 ^ 8"
  define h :: real where "h = 2 / 10 ^ 15"
  have xb: "0 < x" "x \<le> 1" "0 \<le> x" using x by simp_all
  have xmb: "0 < xm" "1/2 \<le> xm" "xm \<le> 1" and xpb: "0 < xp" "1/2 \<le> xp" "xp \<le> 1"
    by (simp_all add: xm_def xp_def)
  have hb: "0 \<le> h" "h \<le> 1" by (simp_all add: h_def)
  have yb: "0 \<le> y" "0 \<le> 100/143 - h" using y by (simp_all add: h_def)
  have "x powr y \<le> x powr (100/143 - h)"
    using y(1) xb by (intro powr_mono') (simp_all add: h_def)
  also have "\<dots> \<le> xp powr (100/143 - h)"
    using x(2) xb(3) yb(2) by (intro powr_mono2) (simp_all add: xp_def)
  also have "\<dots> = xp powr (real 100 / real 143) * xp powr (- h)"
    by (simp add: powr_add [symmetric])
  also have "\<dots> \<le> (61755861 / 10 ^ 8) * (1 + 2 * h)"
  proof (intro mult_mono)
    show "xp powr (real 100 / real 143) \<le> 61755861 / 10 ^ 8"
      unfolding xp_def by (rule root_upper [OF _ _ power_upper_certificate]) simp_all
    show "xp powr (- h) \<le> 1 + 2 * h" using xpb hb by (intro powr_small_exponent(1))
  qed simp_all
  also have "\<dots> \<le> 61755862 / 10 ^ 8" by (simp add: h_def)
  finally show "x powr y \<le> 61755862 / 10 ^ 8" .
  have "(61755859 / 10 ^ 8) * (1 - h) \<le> xm powr (real 100 / real 143) * xm powr h"
  proof (intro mult_mono)
    show "61755859 / 10 ^ 8 \<le> xm powr (real 100 / real 143)"
      unfolding xm_def by (rule root_lower [OF _ _ power_lower_certificate]) simp_all
    show "1 - h \<le> xm powr h" using xmb hb by (intro powr_small_exponent(2))
  qed (simp_all add: h_def)
  also have "\<dots> = xm powr (100/143 + h)" by (simp add: powr_add [symmetric])
  also have "\<dots> \<le> x powr (100/143 + h)"
    using x(1) xmb(1) hb by (intro powr_mono2) (simp_all add: xm_def)
  also have "\<dots> \<le> x powr y"
    using y(2) xb by (intro powr_mono') (simp_all add: h_def)
  finally have "(61755859 / 10 ^ 8) * (1 - h) \<le> x powr y" .
  moreover have "61755858 / 10 ^ 8 \<le> (61755859 / 10 ^ 8) * (1 - h)" by (simp add: h_def)
  ultimately show "61755858 / 10 ^ 8 \<le> x powr y" by linarith
qed

subsection \<open>The sample at index 128 for the built-in configuration\<close>

lemma rd_within:
  assumes "\<bar>x\<bar> \<le> 2"
  shows "x - 1 / 10 ^ 15 \<le> rd x" and "rd x \<le> x + 1 / 10 ^ 15"
proof -
  have "\<bar>rd x - x\<bar> \<le> 2 powi (- 53)" using rd_err_below [of x 1] assms by simp
  moreover have "(2::real) powi (- 53) \<le> 1 / 10 ^ 15" by (simp add: power_int_minus)
  ultimately show "x - 1 / 10 ^ 15 \<le> rd x" and "rd x \<le> x + 1 / 10 ^ 15" by linarith+
qed

lemma rd_within_word:
  assumes "\<bar>x\<bar> \<le> 65536"
  shows "x - 1 / 10 ^ 11 \<le> rd x" and "rd x \<le> x + 1 / 10 ^ 11"
proof -
  have "\<bar>rd x - x\<bar> \<le> 2 powi (- 38)" using assms by (rule rd_err_word)
  moreover have "(2::real) powi (- 38) \<le> 1 / 10 ^ 11" by (simp add: power_int_minus)
  ultimately show "x - 1 / 10 ^ 11 \<le> rd x" and "rd x \<le> x + 1 / 10 ^ 11" by linarith+
qed

lemma exponent_143:
  shows "is_fin (ddiv (Fin 1) (lit (143/100)))"
    and "100/143 - 2 / 10 ^ 15 \<le> dval (ddiv (Fin 1) (lit (143/100)))"
    and "dval (ddiv (Fin 1) (lit (143/100))) \<le> 100/143 + 2 / 10 ^ 15"
proof -
  define g where "g = rd (143/100)"
  have l: "is_fin (lit (143/100))" "dval (lit (143/100)) = g"
    by (simp_all add: lit_small g_def)
  have g: "143/100 - 1 / 10 ^ 15 \<le> g" "g \<le> 143/100 + 1 / 10 ^ 15"
    unfolding g_def by (rule rd_within; simp)+
  then have g0: "0 < g" "1 \<le> g" by simp_all
  have "1 / g \<le> 1 / (143/100 - 1 / 10 ^ 15)" using g(1) by (intro divide_left_mono) simp_all
  then have up: "1 / g \<le> 100/143 + 1 / 10 ^ 15" by simp
  have "1 / (143/100 + 1 / 10 ^ 15) \<le> 1 / g" using g(2) g0 by (intro divide_left_mono) simp_all
  then have lo: "100/143 - 1 / 10 ^ 15 \<le> 1 / g" by simp
  have ab: "\<bar>1 / g\<bar> \<le> 2" using lo up by simp
  then have "\<bar>dval (Fin 1) / dval (lit (143/100))\<bar> \<le> 131072" by (simp add: l)
  then have d: "is_fin (ddiv (Fin 1) (lit (143/100)))"
    "dval (ddiv (Fin 1) (lit (143/100))) = rd (1 / g)"
    using ddiv_small [of "Fin 1" "lit (143/100)"] l g0 by simp_all
  show "is_fin (ddiv (Fin 1) (lit (143/100)))" by (rule d)
  show "100/143 - 2 / 10 ^ 15 \<le> dval (ddiv (Fin 1) (lit (143/100)))"
    unfolding d(2) using rd_within(1) [OF ab] lo by linarith
  show "dval (ddiv (Fin 1) (lit (143/100))) \<le> 100/143 + 2 / 10 ^ 15"
    unfolding d(2) using rd_within(2) [OF ab] up by linarith
qed

lemma index_128:
  shows "50196078 / 10 ^ 8 \<le> dval (ddiv (d_of_int 128) (Fin 255))"
    and "dval (ddiv (d_of_int 128) (Fin 255)) \<le> 50196079 / 10 ^ 8"
proof -
  have v: "dval (ddiv (d_of_int (int 128)) (Fin 255)) = rd (real 128 / 255)"
    by (rule index_value(2)) simp
  have "\<bar>(128::real) / 255\<bar> \<le> 2" by simp
  note r = rd_within [OF this]
  show "50196078 / 10 ^ 8 \<le> dval (ddiv (d_of_int 128) (Fin 255))"
    and "dval (ddiv (d_of_int 128) (Fin 255)) \<le> 50196079 / 10 ^ 8"
    using v r by simp_all
qed

lemma custom_chain:
  assumes P: "61755848 / 10 ^ 8 \<le> P" "P \<le> 61755872 / 10 ^ 8"
  shows "\<lfloor>scaled_real (base_real P (rd (65/100)) (rd (60/100))) 1\<rfloor> = 49336"
    and "0 \<le> scaled_real (base_real P (rd (65/100)) (rd (60/100))) 1"
    and "scaled_real (base_real P (rd (65/100)) (rd (60/100))) 1 < 65536"
proof -
  define c where "c = rd (65/100)"
  have c: "65/100 - 1 / 10 ^ 15 \<le> c" "c \<le> 65/100 + 1 / 10 ^ 15"
    unfolding c_def by (rule rd_within; simp)+
  define c2 where "c2 = rd (c * 2)"
  have "\<bar>c * 2\<bar> \<le> 2" using c by simp
  note r = rd_within [OF this, folded c2_def]
  have c2: "129999999 / 10 ^ 8 \<le> c2" "c2 \<le> 130000001 / 10 ^ 8" using r c by simp_all
  define b where "b = rd (60/100)"
  have b: "60/100 - 1 / 10 ^ 15 \<le> b" "b \<le> 60/100 + 1 / 10 ^ 15"
    unfolding b_def by (rule rd_within; simp)+
  define b5 where "b5 = rd (b - 1/2)"
  have "\<bar>b - 1/2\<bar> \<le> 2" using b by simp
  note r = rd_within [OF this, folded b5_def]
  have b5: "1/10 - 2 / 10 ^ 15 \<le> b5" "b5 \<le> 1/10 + 2 / 10 ^ 15" using r b by simp_all
  define s where "s = rd (P - 1/2)"
  have "\<bar>P - 1/2\<bar> \<le> 2" using P by simp
  note r = rd_within [OF this, folded s_def]
  have s: "11755847 / 10 ^ 8 \<le> s" "s \<le> 11755873 / 10 ^ 8" using r P by simp_all
  have "(11755847 / 10 ^ 8) * (129999999 / 10 ^ 8) \<le> s * c2"
    using s(1) c2(1) by (intro mult_mono) simp_all
  then have pl: "1528260098 / 10 ^ 10 \<le> s * c2" by simp
  have "s * c2 \<le> (11755873 / 10 ^ 8) * (130000001 / 10 ^ 8)"
    using s c2 by (intro mult_mono) simp_all
  then have pu: "s * c2 \<le> 1528263502 / 10 ^ 10" by simp
  define m where "m = rd (s * c2)"
  have "\<bar>s * c2\<bar> \<le> 2" using pl pu by simp
  note r = rd_within [OF this, folded m_def]
  have m: "15282600 / 10 ^ 8 \<le> m" "m \<le> 15282637 / 10 ^ 8" using r pl pu by simp_all
  define a where "a = rd (m + 1/2)"
  have "\<bar>m + 1/2\<bar> \<le> 2" using m by simp
  note r = rd_within [OF this, folded a_def]
  have a: "m + 1/2 - 1 / 10 ^ 15 \<le> a" "a \<le> m + 1/2 + 1 / 10 ^ 15" using r by simp_all
  define w where "w = rd (a + b5)"
  have "\<bar>a + b5\<bar> \<le> 2" using a m b5 by simp
  note r = rd_within [OF this, folded w_def]
  have w: "75282599 / 10 ^ 8 \<le> w" "w \<le> 75282638 / 10 ^ 8" using r a m b5 by simp_all
  have B: "base_real P (rd (65/100)) (rd (60/100)) = w"
    using w by (simp add: base_real_def w_def b5_def a_def m_def c2_def s_def c_def b_def)
  define r1 where "r1 = rd (w * 1)"
  have "\<bar>w * 1\<bar> \<le> 2" using w by simp
  note r = rd_within [OF this, folded r1_def]
  have r1: "75282598 / 10 ^ 8 \<le> r1" "r1 \<le> 75282639 / 10 ^ 8" using r w by simp_all
  define p where "p = rd (r1 * 65535)"
  have "\<bar>r1 * 65535\<bar> \<le> 65536" using r1 by simp
  note r = rd_within_word [OF this, folded p_def]
  have p: "r1 * 65535 - 1 / 10 ^ 11 \<le> p" "p \<le> r1 * 65535 + 1 / 10 ^ 11" using r by simp_all
  define q where "q = rd (p + 1/2)"
  have "\<bar>p + 1/2\<bar> \<le> 65536" using p r1 by simp
  note r = rd_within_word [OF this, folded q_def]
  have q: "49336 \<le> q" "q < 49337" using r p r1 by simp_all
  have S: "scaled_real w 1 = q"
    using r1 by (simp add: scaled_real_def q_def p_def r1_def)
  show "\<lfloor>scaled_real (base_real P (rd (65/100)) (rd (60/100))) 1\<rfloor> = 49336"
    unfolding B S using q by (intro floor_unique) simp_all
  show "0 \<le> scaled_real (base_real P (rd (65/100)) (rd (60/100))) 1"
    and "scaled_real (base_real P (rd (65/100)) (rd (60/100))) 1 < 65536"
    unfolding B S using q by simp_all
qed

lemma custom_sample_128:
  assumes "wf_ramp ramp" and "ch < 3"
    and acc: "pow_accurate pw (1 / 10 ^ 7) (ddiv (d_of_int 128) (Fin 255)) (ddiv (Fin 1) (lit (143/100)))"
  shows "uint (BuildGammaRamp pw ramp (lit (60/100)) (lit (65/100)) (lit (143/100)) 0 ! ch ! 128)
           = 49336"
proof -
  let ?X = "ddiv (d_of_int 128) (Fin 255)"
  let ?Y = "ddiv (Fin 1) (lit (143/100))"
  let ?g = "lit (143/100)"
  define P where "P = dval (pw ?X ?Y)"
  have win: "61755858 / 10 ^ 8 \<le> dval ?X powr dval ?Y" "dval ?X powr dval ?Y \<le> 61755862 / 10 ^ 8"
    using powr_window [OF index_128 exponent_143(2,3)] by simp_all
  have fin: "is_fin (pw ?X ?Y)" and near: "\<bar>P - dval ?X powr dval ?Y\<bar> \<le> 1 / 10 ^ 7"
    using acc by (simp_all add: pow_accurate_def P_def)
  define Z where "Z = dval ?X powr dval ?Y"
  have "61755858 / 100000000 \<le> Z" "Z \<le> 61755862 / 100000000" "\<bar>P - Z\<bar> \<le> 1 / 10000000"
    using win near by (simp_all add: Z_def)
  then have "61755848 / 100000000 \<le> P" "P \<le> 61755872 / 100000000" by linarith+
  then have P: "61755848 / 10 ^ 8 \<le> P" "P \<le> 61755872 / 10 ^ 8" by simp_all
  have g1: "dne ?g (Fin 1)" by (rule lit_above_one) simp_all
  have sv: "start_value pw ?g 128 = pw ?X ?Y" using g1 by (simp add: start_value_def)
  have su: "unit_d (start_value pw ?g 128)"
    unfolding sv using fin P by (simp add: unit_d_def P_def)
  have b: "unit_d (lit (60/100))" and c: "unit_d (lit (65/100))" by (rule lit_unit; simp)+
  note bv = base_value_real [OF su b c]
  have bu: "unit_d (base_value pw (lit (60/100)) (lit (65/100)) ?g 128)"
    using su b c by (rule base_value_unit)
  have t: "- 100 \<le> sint (0 :: 32 word)" "sint (0 :: 32 word) \<le> 100" by simp_all
  note ta = temperature_adj_real [OF t, of ch]
  have ta1: "dval (temperature_adj 0 ch) = 1" using ta(2) by simp
  have "0 \<le> dval (temperature_adj 0 ch)" "dval (temperature_adj 0 ch) \<le> 2" using ta1 by simp_all
  note sc = scaled_real_eq [OF bu ta(1) this]
  let ?sd = "sample_double pw (lit (60/100)) (lit (65/100)) ?g 0 ch 128"
  have sd: "is_fin ?sd" "dval ?sd = scaled_real (base_real P (rd (65/100)) (rd (60/100))) 1"
    using sc bv(2) ta1 by (simp_all add: sample_double_def sv P_def lit_small)
  note ch = custom_chain [OF P]
  have "0 \<le> dval ?sd" "dval ?sd < 65536" using ch(2,3) by (simp_all only: sd(2))
  then have "uint (to_WORD ?sd) = \<lfloor>dval ?sd\<rfloor>"
    using sd(1) by (intro to_WORD_floor)
  then have "uint (to_WORD ?sd) = 49336" using ch(1) by (simp only: sd(2))
  then show ?thesis by (simp only: BuildGammaRamp_nth [OF assms(1,2)])
qed

lemma pow_ref_accurate_128:
  "pow_accurate pow_ref (1 / 10 ^ 7) (ddiv (d_of_int 128) (Fin 255)) (ddiv (Fin 1) (lit (143/100)))"
proof -
  let ?X = "ddiv (d_of_int 128) (Fin 255)"
  let ?Y = "ddiv (Fin 1) (lit (143/100))"
  have x: "unit_d ?X" using index_value(1) [of 128] by simp
  have g: "dlt (Fin 0) (lit (143/100))" by (rule lit_above_one) simp_all
  note y = reciprocal_exponent [OF g]
  note v = pow_ref_val [OF x y]
  have yf: "is_fin ?Y" by (rule exponent_143)
  have ypos: "0 < dval ?Y" using exponent_143(2) by simp
  then have nz: "\<not> is_zero ?Y" by (simp add: is_zero_def)
  have ninf: "?Y \<noteq> PInf" using yf by auto
  have val: "dval (pow_ref ?X ?Y) = rd (dval ?X powr dval ?Y)" using v(2) nz ninf by simp
  define Z where "Z = dval ?X powr dval ?Y"
  have "\<bar>Z\<bar> \<le> 2"
    using powr_window [OF index_128 exponent_143(2,3)] by (simp add: Z_def)
  note r = rd_within [OF this]
  have "Z - 1 / 1000000000000000 \<le> rd Z" "rd Z \<le> Z + 1 / 1000000000000000"
    using r by simp_all
  then have "\<bar>rd Z - Z\<bar> \<le> 1 / 10000000" by linarith
  then have "\<bar>rd Z - Z\<bar> \<le> 1 / 10 ^ 7" by simp
  then show ?thesis unfolding pow_accurate_def val using v(1) by (simp add: Z_def)
qed

text \<open>
  C7, as amended. With brightness 0.60, contrast 0.65, gamma 1.43 and temperature 0 the
  sample at index 128 is 49336 on all three channels, for every \<^verbatim>\<open>pow\<close> whose result at
  \<open>(128/255, 1/1.43)\<close> is within \<open>10^-7\<close> of the real power: \<open>(128/255)^(1/1.43)\<close> is
  0.61756 (not 0.6397), the value before scaling is 0.75283, and
  \<open>0.75283 * 65535 + 0.5 = 49336.96\<close> is cut to 49336.
\<close>

theorem BuildGammaRamp_custom_sample_128:
  assumes "wf_ramp ramp" and "ch < 3"
    and "pow_accurate pw (1 / 10 ^ 7) (ddiv (d_of_int 128) (Fin 255)) (ddiv (Fin 1) (lit (143/100)))"
  shows "uint (BuildGammaRamp pw ramp (lit (60/100)) (lit (65/100)) (lit (143/100)) 0 ! ch ! 128)
           = 49336"
  using assms by (rule custom_sample_128)

theorem BuildGammaRamp_custom_sample_128_witness:
  "wf_ramp zero_ramp \<and> (2::nat) < 3 \<and>
   pow_accurate pow_ref (1 / 10 ^ 7) (ddiv (d_of_int 128) (Fin 255)) (ddiv (Fin 1) (lit (143/100))) \<and>
   uint (BuildGammaRamp pow_ref zero_ramp (lit (60/100)) (lit (65/100)) (lit (143/100)) 0 ! 2 ! 128)
     = 49336"
proof -
  have c: "(2::nat) < 3" by simp
  note r = BuildGammaRamp_custom_sample_128 [OF wf_zero_ramp c pow_ref_accurate_128]
  show ?thesis using wf_zero_ramp c pow_ref_accurate_128 r by (intro conjI)
qed

text \<open>
  C7 as stated fails: with the correctly rounded \<open>pow_ref\<close> the sample at index 128 is
  49336, not 51223.
\<close>

theorem custom_sample_128_counterexample:
  "uint (BuildGammaRamp pow_ref zero_ramp (lit (60/100)) (lit (65/100)) (lit (143/100)) 0 ! 0 ! 128)
     = 49336 \<and>
   uint (BuildGammaRamp pow_ref zero_ramp (lit (60/100)) (lit (65/100)) (lit (143/100)) 0 ! 0 ! 128)
     \<noteq> 51223"
proof -
  have "uint (BuildGammaRamp pow_ref zero_ramp (lit (60/100)) (lit (65/100)) (lit (143/100)) 0 ! 0 ! 128)
          = 49336"
    by (rule custom_sample_128 [OF wf_zero_ramp _ pow_ref_accurate_128]) simp
  then show ?thesis by simp
qed

section \<open>The model on concrete data\<close>

subsection \<open>The rounding function on the literals of the source\<close>

lemma rd_eval:
  assumes "2 powi k \<le> \<bar>x\<bar>" "\<bar>x\<bar> < 2 powi (k + 1)" "- 1022 \<le> k"
  shows "rd x = of_int (rne (x / 2 powi (k - 52))) * 2 powi (k - 52)"
proof -
  have "ilog2 \<bar>x\<bar> = k" using assms(1,2) by (rule ilog2_unique)
  then have e: "dexp x = k - 52" using assms(3) by (simp add: dexp_def)
  have "0 < \<bar>x\<bar>" using assms(1) p2_pos [of k] by linarith
  then have "x \<noteq> 0" by simp
  then show ?thesis by (simp add: rd_def e)
qed

lemma rd_literals:
  "rd (1/10) = 3602879701896397 / 36028797018963968"
  "rd (2/100) = 5764607523034235 / 288230376151711744"
  "rd (60/100) = 5404319552844595 / 9007199254740992"
  "rd (65/100) = 5854679515581645 / 9007199254740992"
  "rd (143/100) = 6440147467139809 / 4503599627370496"
  "rd (128/255) = 282578800148737 / 562949953421312"
proof -
  show "rd (1/10) = 3602879701896397 / 36028797018963968"
    by (subst rd_eval [of "- 4"]) (simp_all add: power_int_minus rne_def Let_def)
  show "rd (2/100) = 5764607523034235 / 288230376151711744"
    by (subst rd_eval [of "- 6"]) (simp_all add: power_int_minus rne_def Let_def)
  show "rd (60/100) = 5404319552844595 / 9007199254740992"
    by (subst rd_eval [of "- 1"]) (simp_all add: power_int_minus rne_def Let_def)
  show "rd (65/100) = 5854679515581645 / 9007199254740992"
    by (subst rd_eval [of "- 1"]) (simp_all add: power_int_minus rne_def Let_def)
  show "rd (143/100) = 6440147467139809 / 4503599627370496"
    by (subst rd_eval [of 0]) (simp_all add: power_int_minus rne_def Let_def)
  show "rd (128/255) = 282578800148737 / 562949953421312"
    by (subst rd_eval [of "- 1"]) (simp_all add: power_int_minus rne_def Let_def)
qed

subsection \<open>The detector on the neutral and on the built-in table\<close>

lemma detector_on_neutral_table:
  assumes "wf_ramp ramp"
  shows "HasDefaultGammaRamp pw
           (\<lambda>hdc. Some (BuildGammaRamp pw ramp (Fin (1/2)) (Fin (1/2)) (Fin 1) 0)) ramp hdc"
  by (simp add: HasDefaultGammaRamp_def HasDefaultGammaRamp_loop_all
      DEFAULT_BRIGHTNESS_def DEFAULT_CONTRAST_def DEFAULT_GAMMA_def)

lemma detector_on_custom_table:
  assumes "wf_ramp ramp"
    and "pow_accurate pw (1 / 10 ^ 7) (ddiv (d_of_int 128) (Fin 255)) (ddiv (Fin 1) (lit (143/100)))"
  shows "\<not> HasDefaultGammaRamp pw
           (\<lambda>hdc. Some (BuildGammaRamp pw ramp (lit (60/100)) (lit (65/100)) (lit (143/100)) 0))
           ramp hdc"
proof -
  let ?cur = "BuildGammaRamp pw ramp (lit (60/100)) (lit (65/100)) (lit (143/100)) 0"
  let ?dfl = "BuildGammaRamp pw ramp (Fin (1/2)) (Fin (1/2)) (Fin 1) 0"
  have c: "uint (?cur ! 0 ! 128) = 49336" using assms(1) _ assms(2) by (rule custom_sample_128) simp
  have d: "uint (?dfl ! 0 ! 128) = 257 * int 128" using assms(1) by (rule neutral_sample) simp_all
  have "\<not> \<bar>uint (?cur ! 0 ! 128) - uint (?dfl ! 0 ! 128)\<bar> \<le> 256" unfolding c d by simp
  then have "\<not> (\<forall>c<3. \<forall>i<256. \<bar>uint (?cur ! c ! i) - uint (?dfl ! c ! i)\<bar> \<le> 256)"
    by (metis (no_types) zero_less_numeral numeral_less_iff semiring_norm(76,78,79))
  then show ?thesis
    by (simp add: HasDefaultGammaRamp_def HasDefaultGammaRamp_loop_all
        DEFAULT_BRIGHTNESS_def DEFAULT_CONTRAST_def DEFAULT_GAMMA_def)
qed

end
